theory Spec2Isabelle
  imports Complex_Main
begin

section \<open>Data model of the word-ladder engine\<close>

text \<open>
  The class \<open>WordLadderAlgorithm\<close> of \<open>algorithm.js\<close> holds five fields. Sets and maps
  that the code iterates over are kept as lists in insertion order (the iteration order of
  a JavaScript \<open>Set\<close> or \<open>Map\<close>); the two caches are only read by key and written by key,
  so they are maps. Words are strings of 8-bit characters.
\<close>

record engine =
  wordSet :: "string list"
  wordGraph :: "(string \<times> string list) list"
  wordsByLength :: "(nat \<times> string list) list"
  precomputedPaths :: "string \<rightharpoonup> string list"
  heuristicCache :: "string \<rightharpoonup> rat"

text \<open>The constructor: every field empty.\<close>

definition new_engine :: engine where
  "new_engine = \<lparr> wordSet = [], wordGraph = [], wordsByLength = [],
     precomputedPaths = Map.empty, heuristicCache = Map.empty \<rparr>"

subsection \<open>Insertion-ordered sets and maps\<close>

text \<open>\<open>Set.prototype.add\<close>: a new element goes to the end, a present one changes nothing.\<close>

definition set_add :: "'a list \<Rightarrow> 'a \<Rightarrow> 'a list" where
  "set_add xs x = (if x \<in> set xs then xs else xs @ [x])"

text \<open>\<open>new Set(array)\<close>.\<close>

definition set_of_array :: "'a list \<Rightarrow> 'a list" where
  "set_of_array xs = foldl set_add [] xs"

text \<open>\<open>Map.prototype.has\<close>, \<open>get\<close> and \<open>set\<close> on an insertion-ordered map.\<close>

definition map_has :: "('k \<times> 'v) list \<Rightarrow> 'k \<Rightarrow> bool" where
  "map_has m k = (map_of m k \<noteq> None)"

fun map_set :: "('k \<times> 'v) list \<Rightarrow> 'k \<Rightarrow> 'v \<Rightarrow> ('k \<times> 'v) list" where
  "map_set [] k v = [(k, v)]"
| "map_set ((k', v') # m) k v =
     (if k' = k then (k', v) # m else (k', v') # map_set m k v)"

text \<open>\<open>Map.prototype.delete\<close>.\<close>

definition map_delete :: "('k \<times> 'v) list \<Rightarrow> 'k \<Rightarrow> ('k \<times> 'v) list" where
  "map_delete m k = filter (\<lambda>kv. fst kv \<noteq> k) m"

section \<open>Dictionary loading: \<open>initialize\<close>\<close>

text \<open>
  \<open>String.prototype.trim\<close> removes leading and trailing white space; among 8-bit
  characters these are tab, line feed, vertical tab, form feed, carriage return, space and
  the no-break space.
\<close>

definition is_space :: "char \<Rightarrow> bool" where
  "is_space c = ((of_char c :: nat) \<in> {9, 10, 11, 12, 13, 32, 160})"

definition trim :: "string \<Rightarrow> string" where
  "trim s = rev (dropWhile is_space (rev (dropWhile is_space s)))"

text \<open>\<open>split(sep)\<close> for a one-character separator: the pieces between its occurrences;
  there is always at least one piece.\<close>

fun split_on :: "char \<Rightarrow> string \<Rightarrow> string list" where
  "split_on sep [] = [[]]"
| "split_on sep (c # cs) =
     (if c = sep then [] # split_on sep cs
      else (case split_on sep cs of [] \<Rightarrow> [[c]] | p # ps \<Rightarrow> (c # p) # ps))"

text \<open>\<open>toLowerCase\<close> on 8-bit characters: \<open>A\<close> to \<open>Z\<close> move to \<open>a\<close> to \<open>z\<close>.\<close>

definition lower_char :: "char \<Rightarrow> char" where
  "lower_char c = (let n = (of_char c :: nat) in
     if 65 \<le> n \<and> n \<le> 90 then char_of (n + 32) else c)"

definition toLowerCase :: "string \<Rightarrow> string" where
  "toLowerCase s = map lower_char s"

text \<open>The test \<open>/^[a-z]+$/\<close>.\<close>

definition is_lower :: "char \<Rightarrow> bool" where
  "is_lower c = (97 \<le> (of_char c :: nat) \<and> (of_char c :: nat) \<le> 122)"

definition is_word :: "string \<Rightarrow> bool" where
  "is_word w = (w \<noteq> [] \<and> list_all is_lower w)"

definition process_line :: "string \<Rightarrow> string" where
  "process_line line = toLowerCase (last (split_on CHR '' '' (trim line)))"

definition processedWords :: "string list \<Rightarrow> string list" where
  "processedWords ls = filter is_word (map process_line ls)"

text \<open>The loop body that files a word under its length in \<open>wordsByLength\<close>.\<close>

definition add_by_length :: "(nat \<times> string list) list \<Rightarrow> string \<Rightarrow> (nat \<times> string list) list" where
  "add_by_length wbl w =
     (let wbl1 = (if map_has wbl (length w) then wbl else map_set wbl (length w) [])
      in map_set wbl1 (length w)
           (set_add (case map_of wbl1 (length w) of None \<Rightarrow> [] | Some s \<Rightarrow> s) w))"

subsection \<open>\<open>buildWordGraph\<close>\<close>

text \<open>The wildcard pattern of a word at position \<open>i\<close>.\<close>

definition pattern :: "string \<Rightarrow> nat \<Rightarrow> string" where
  "pattern w i = take i w @ ''*'' @ drop (Suc i) w"

text \<open>\<open>buckets.get(pattern).push(word)\<close>, creating the bucket when it is missing.\<close>

fun bucket_push :: "(string \<times> string list) list \<Rightarrow> string \<Rightarrow> string \<Rightarrow> (string \<times> string list) list" where
  "bucket_push [] p w = [(p, [w])]"
| "bucket_push ((q, ws) # bs) p w =
     (if q = p then (q, ws @ [w]) # bs else (q, ws) # bucket_push bs p w)"

definition add_word_patterns :: "(string \<times> string list) list \<Rightarrow> string \<Rightarrow> (string \<times> string list) list" where
  "add_word_patterns bs w = foldl (\<lambda>b i. bucket_push b (pattern w i) w) bs [0..<length w]"

definition make_buckets :: "string list \<Rightarrow> (string \<times> string list) list" where
  "make_buckets ws = foldl add_word_patterns [] ws"

text \<open>\<open>if (!wordGraph.has(w)) wordGraph.set(w, new Set())\<close>.\<close>

definition graph_ensure :: "(string \<times> string list) list \<Rightarrow> string \<Rightarrow> (string \<times> string list) list" where
  "graph_ensure g w = (if map_has g w then g else g @ [(w, [])])"

text \<open>\<open>wordGraph.get(w).add(v)\<close>, for a key \<open>w\<close> that is present.\<close>

definition graph_add :: "(string \<times> string list) list \<Rightarrow> string \<Rightarrow> string \<Rightarrow> (string \<times> string list) list" where
  "graph_add g w v = map (\<lambda>(k, s). if k = w then (k, set_add s v) else (k, s)) g"

definition connect :: "(string \<times> string list) list \<Rightarrow> string \<Rightarrow> string \<Rightarrow> (string \<times> string list) list" where
  "connect g word1 word2 =
     graph_add (graph_add (graph_ensure (graph_ensure g word1) word2) word1 word2) word2 word1"

text \<open>The double loop over \<open>i < j\<close> within one bucket.\<close>

fun connect_pairs :: "(string \<times> string list) list \<Rightarrow> string list \<Rightarrow> (string \<times> string list) list" where
  "connect_pairs g [] = g"
| "connect_pairs g (word1 # rest) =
     connect_pairs (foldl (\<lambda>g' word2. connect g' word1 word2) g rest) rest"

definition connect_buckets :: "(string \<times> string list) list \<Rightarrow> (string \<times> string list) list \<Rightarrow> (string \<times> string list) list" where
  "connect_buckets g bs = foldl (\<lambda>g' b. connect_pairs g' (snd b)) g bs"

definition buildWordGraph :: "engine \<Rightarrow> engine" where
  "buildWordGraph st =
     st\<lparr> wordGraph :=
       foldl (\<lambda>g lw. connect_buckets g (make_buckets (snd lw))) (wordGraph st) (wordsByLength st) \<rparr>"

definition initialize :: "engine \<Rightarrow> string list \<Rightarrow> engine" where
  "initialize st ls =
     (let ws = processedWords ls
      in buildWordGraph
           (st\<lparr> wordSet := set_of_array ws,
                wordsByLength := foldl add_by_length (wordsByLength st) ws \<rparr>))"

text \<open>\<open>wordGraph.get(word) || new Set()\<close> and \<open>getNeighbors\<close>.\<close>

definition neighbors :: "(string \<times> string list) list \<Rightarrow> string \<Rightarrow> string list" where
  "neighbors g w = (case map_of g w of None \<Rightarrow> [] | Some s \<Rightarrow> s)"

definition getNeighbors :: "engine \<Rightarrow> string \<Rightarrow> string list" where
  "getNeighbors st w = neighbors (wordGraph st) w"

definition isValidWord :: "engine \<Rightarrow> string \<Rightarrow> bool" where
  "isValidWord st w = (toLowerCase w \<in> set (wordSet st))"

text \<open>
  \<open>areNeighbors\<close>: the loop over the positions counts differences and leaves as soon as
  there are two.
\<close>

fun differences_loop :: "string \<Rightarrow> string \<Rightarrow> nat \<Rightarrow> bool" where
  "differences_loop (a # as) (b # bs) d =
     (if a \<noteq> b then (if 1 < Suc d then False else differences_loop as bs (Suc d))
      else differences_loop as bs d)"
| "differences_loop _ _ d = (d = 1)"

definition areNeighbors :: "string \<Rightarrow> string \<Rightarrow> bool" where
  "areNeighbors word1 word2 =
     (if length word1 \<noteq> length word2 then False else differences_loop word1 word2 0)"

section \<open>JavaScript numbers\<close>

text \<open>
  A finite JavaScript number is a binary64 floating-point number: an integer of at most 53
  bits times a power of two. It is kept as the rational it denotes, and every arithmetic
  operation of the code is the exact operation followed by the rounding \<open>fl\<close> to the
  nearest such number, a tie going to the one with the even significand; a decimal
  literal such as \<open>0.6\<close> is \<open>fl (6 / 10)\<close>.

  The numbers of this program are word lengths, path lengths, neighbour counts and small
  multiples of them. Strings and collections of JavaScript have fewer than \<open>2^53\<close>
  elements, so the counts are exact (they are kept as naturals) and no result comes near
  the largest or the smallest binary64 number; \<open>fl\<close> therefore rounds to 53 bits with
  no bound on the exponent.
\<close>

definition pow2 :: "int \<Rightarrow> rat" where
  "pow2 k = (if 0 \<le> k then 2 ^ nat k else 1 / 2 ^ nat (- k))"

text \<open>The number of binary digits of a positive integer.\<close>

function bitlen :: "int \<Rightarrow> int" where
  "bitlen i = (if i \<le> 0 then 0 else 1 + bitlen (i div 2))"
  by pat_completeness auto
termination
  by (relation "measure nat") auto

declare bitlen.simps [simp del]

text \<open>The binary exponent of a positive rational \<open>x\<close>: the \<open>e\<close> with
  \<open>2^e \<le> x < 2^(e+1)\<close>. The digit counts of numerator and denominator give it up to one.\<close>

definition binary_exponent :: "rat \<Rightarrow> int" where
  "binary_exponent x =
     (let d = bitlen (fst (quotient_of x)) - bitlen (snd (quotient_of x))
      in if pow2 d \<le> x then d else d - 1)"

text \<open>Rounding to the nearest integer, a tie going to the even one.\<close>

definition round_half_even :: "rat \<Rightarrow> int" where
  "round_half_even m =
     (if m - of_int \<lfloor>m\<rfloor> < 1 / 2 then \<lfloor>m\<rfloor>
      else if 1 / 2 < m - of_int \<lfloor>m\<rfloor> then \<lfloor>m\<rfloor> + 1
      else if even \<lfloor>m\<rfloor> then \<lfloor>m\<rfloor> else \<lfloor>m\<rfloor> + 1)"

text \<open>Rounding to binary64: the significand of \<open>x\<close>, scaled to 53 bits, is rounded to an
  integer.\<close>

definition fl :: "rat \<Rightarrow> rat" where
  "fl x =
     (if x = 0 then 0
      else of_int (round_half_even (x / pow2 (binary_exponent \<bar>x\<bar> - 52)))
             * pow2 (binary_exponent \<bar>x\<bar> - 52))"

text \<open>
  \<open>Infinity\<close> and \<open>-Infinity\<close> are values of their own, ordered above and below every
  finite number.
\<close>

datatype jsnum = NegInf | Fin rat | PosInf

instantiation jsnum :: linorder
begin

fun less_eq_jsnum :: "jsnum \<Rightarrow> jsnum \<Rightarrow> bool" where
  "less_eq_jsnum NegInf _ = True"
| "less_eq_jsnum (Fin a) NegInf = False"
| "less_eq_jsnum (Fin a) (Fin b) = (a \<le> b)"
| "less_eq_jsnum (Fin a) PosInf = True"
| "less_eq_jsnum PosInf PosInf = True"
| "less_eq_jsnum PosInf _ = False"

definition less_jsnum :: "jsnum \<Rightarrow> jsnum \<Rightarrow> bool" where
  "less_jsnum x y = (x \<le> y \<and> \<not> y \<le> x)"

instance
proof
  fix x y z :: jsnum
  show "(x < y) = (x \<le> y \<and> \<not> y \<le> x)"
    by (simp add: less_jsnum_def)
  show "x \<le> x"
    by (cases x) simp_all
  show "x \<le> y \<Longrightarrow> y \<le> z \<Longrightarrow> x \<le> z"
    by (cases x; cases y; cases z) simp_all
  show "x \<le> y \<Longrightarrow> y \<le> x \<Longrightarrow> x = y"
    by (cases x; cases y) simp_all
  show "x \<le> y \<or> y \<le> x"
    by (cases x; cases y) auto
qed

end

section \<open>The composite heuristic\<close>

text \<open>The cache key \<open>`${word1}-${word2}`\<close>, used by both caches.\<close>

definition cache_key :: "string \<Rightarrow> string \<Rightarrow> string" where
  "cache_key word1 word2 = word1 @ ''-'' @ word2"

text \<open>
  The Hamming loop runs over the positions of \<open>word1\<close>; past the end of \<open>word2\<close> the
  comparison is with \<open>undefined\<close> and counts as a difference.
\<close>

fun hamming :: "string \<Rightarrow> string \<Rightarrow> nat" where
  "hamming [] _ = 0"
| "hamming (a # as) [] = Suc (hamming as [])"
| "hamming (a # as) (b # bs) = (if a \<noteq> b then Suc (hamming as bs) else hamming as bs)"

text \<open>
  \<open>calculateLevenshtein\<close> fills a matrix with one row per prefix of \<open>word2\<close> and one
  column per prefix of \<open>word1\<close>. \<open>lev_cell\<close> is the value stored in one cell, from the
  cell diagonally above, the cell to the left and the cell above. \<open>lev_cells\<close> fills a row
  from column 1 on: it walks \<open>word1\<close> along the row above and appends to the row being
  built, whose last element is the cell to the left.
\<close>

definition lev_cell :: "char \<Rightarrow> char \<Rightarrow> nat \<Rightarrow> nat \<Rightarrow> nat \<Rightarrow> nat" where
  "lev_cell c a diag left up =
     (if c = a then diag else min (diag + 1) (min (left + 1) (up + 1)))"

fun lev_cells :: "char \<Rightarrow> string \<Rightarrow> nat list \<Rightarrow> nat list \<Rightarrow> nat list" where
  "lev_cells c (a # as) (diag # up # upper) row =
     lev_cells c as (up # upper) (row @ [lev_cell c a diag (last row) up])"
| "lev_cells c _ _ row = row"

text \<open>The loop over the rows: one row per character of \<open>word2\<close>, each started with its
  row number; the result is the last cell of the last row.\<close>

fun lev_rows :: "string \<Rightarrow> string \<Rightarrow> nat list \<Rightarrow> nat \<Rightarrow> nat list" where
  "lev_rows word1 [] upper i = upper"
| "lev_rows word1 (c # cs) upper i = lev_rows word1 cs (lev_cells c word1 upper [i]) (Suc i)"

definition calculateLevenshtein :: "string \<Rightarrow> string \<Rightarrow> nat" where
  "calculateLevenshtein word1 word2 = last (lev_rows word1 word2 [0..<Suc (length word1)] 1)"

text \<open>\<open>calculateCharFrequencyDifference\<close>: the frequency tables, then the sum over the
  characters of either word.\<close>

definition freq_table :: "string \<Rightarrow> char \<Rightarrow> nat" where
  "freq_table w = foldl (\<lambda>f c. f(c := f c + 1)) (\<lambda>_. 0) w"

definition abs_diff :: "nat \<Rightarrow> nat \<Rightarrow> nat" where
  "abs_diff a b = (if a \<le> b then b - a else a - b)"

definition calculateCharFrequencyDifference :: "string \<Rightarrow> string \<Rightarrow> nat" where
  "calculateCharFrequencyDifference word1 word2 =
     foldl (\<lambda>d c. d + abs_diff (freq_table word1 c) (freq_table word2 c)) 0
       (set_of_array (word1 @ word2))"

text \<open>\<open>hammingDistance * 0.6 + levenshteinDistance * 0.3 + charFreqDiff * 0.1\<close>: three
  products and two sums, each rounded.\<close>

definition heuristicValue :: "string \<Rightarrow> string \<Rightarrow> rat" where
  "heuristicValue word1 word2 =
     fl (fl (fl (of_nat (hamming word1 word2) * fl (6 / 10))
             + fl (of_nat (calculateLevenshtein word1 word2) * fl (3 / 10)))
         + fl (of_nat (calculateCharFrequencyDifference word1 word2) * fl (1 / 10)))"

text \<open>\<open>heuristic\<close>: answer from the cache when the key is there, else compute and store.\<close>

definition heuristic :: "engine \<Rightarrow> string \<Rightarrow> string \<Rightarrow> rat \<times> engine" where
  "heuristic st word1 word2 =
     (case heuristicCache st (cache_key word1 word2) of
        Some v \<Rightarrow> (v, st)
      | None \<Rightarrow>
          (heuristicValue word1 word2,
           st\<lparr> heuristicCache :=
             (heuristicCache st)(cache_key word1 word2 \<mapsto> heuristicValue word1 word2) \<rparr>))"

section \<open>\<open>findPath\<close>: the A* search\<close>

text \<open>
  The state of the \<open>while\<close> loop. \<open>openSet\<close> is iterated to find the lowest score, so it
  keeps its insertion order; \<open>closedSet\<close>, \<open>cameFrom\<close> and \<open>gScore\<close> are only looked up.
  (\<open>fScore\<close> is written and read back on the next line only, so the value is passed on
  directly.) The engine is part of the state because \<open>heuristic\<close> fills its cache.
\<close>

record search =
  openSet :: "(string \<times> jsnum) list"
  closedSet :: "string list"
  cameFrom :: "string \<rightharpoonup> string"
  gScore :: "string \<rightharpoonup> nat"
  eng :: engine

text \<open>The scan for the node with the lowest score: the first one wins a tie, and a node
  whose score is not below \<open>Infinity\<close> is never chosen.\<close>

fun lowest :: "(string \<times> jsnum) list \<Rightarrow> string option \<Rightarrow> jsnum \<Rightarrow> string option" where
  "lowest [] current lowestF = current"
| "lowest ((node, f) # rest) current lowestF =
     (if f < lowestF then lowest rest (Some node) f else lowest rest current lowestF)"

text \<open>
  The path is rebuilt by following \<open>cameFrom\<close> while the value is truthy, that is, until
  \<open>undefined\<close> (or the empty string) is met.
\<close>

partial_function (option) reconstruct :: "(string \<rightharpoonup> string) \<Rightarrow> string option \<Rightarrow> string list \<Rightarrow> string list option" where
  "reconstruct cf temp path =
     (case temp of
        None \<Rightarrow> Some path
      | Some w \<Rightarrow> if w = [] then Some path else reconstruct cf (cf w) (w # path))"

declare reconstruct.simps [code]

text \<open>
  \<open>tentativeGScore < (gScore.get(neighbor) || Infinity)\<close>. The tentative score is
  \<open>gScore.get(current) + 1\<close>, which is \<open>NaN\<close> (here \<open>None\<close>) when \<open>current\<close> has no score and
  then compares false; a stored score of \<open>0\<close> is falsy and counts as \<open>Infinity\<close>.
\<close>

definition improves :: "nat option \<Rightarrow> nat option \<Rightarrow> bool" where
  "improves tentative known =
     (case tentative of
        None \<Rightarrow> False
      | Some t \<Rightarrow> (case known of None \<Rightarrow> True | Some k \<Rightarrow> if k = 0 then True else t < k))"

text \<open>The body of the loop over the neighbours of \<open>current\<close>.\<close>

definition relax :: "string \<Rightarrow> string \<Rightarrow> bool \<Rightarrow> search \<Rightarrow> string \<Rightarrow> search" where
  "relax current end useHeuristic s neighbor =
     (if neighbor \<in> set (closedSet s) then s
      else
        let tentativeGScore = map_option Suc (gScore s current);
            s1 = (if map_has (openSet s) neighbor then s
                  else s\<lparr> openSet := map_set (openSet s) neighbor PosInf \<rparr>)
        in if improves tentativeGScore (gScore s1 neighbor) then
             (case tentativeGScore of
                None \<Rightarrow> s1
              | Some t \<Rightarrow>
                  let (h, e1) = (if useHeuristic then heuristic (eng s1) neighbor end
                                 else (0, eng s1))
                  in s1\<lparr> cameFrom := (cameFrom s1)(neighbor \<mapsto> current),
                         gScore := (gScore s1)(neighbor \<mapsto> t),
                         openSet := map_set (openSet s1) neighbor (Fin (fl (of_nat t + h))),
                         eng := e1 \<rparr>)
           else s1)"

text \<open>One round for a \<open>current\<close> that is not the goal: move it from the open to the closed
  set and relax its neighbours in the order of its neighbour set.\<close>

definition expand :: "string \<Rightarrow> string \<Rightarrow> bool \<Rightarrow> search \<Rightarrow> search" where
  "expand current end useHeuristic s =
     foldl (relax current end useHeuristic)
       (s\<lparr> openSet := map_delete (openSet s) current,
           closedSet := set_add (closedSet s) current \<rparr>)
       (neighbors (wordGraph (eng s)) current)"

text \<open>
  The \<open>while (openSet.size > 0)\<close> loop. The result \<open>None\<close> of the option monad stands for
  a loop that never ends. When no node has a score below \<open>Infinity\<close>, \<open>current\<close> stays
  \<open>null\<close>: the round deletes nothing from the open set, finds no neighbours, and the loop
  condition holds for ever.
\<close>

partial_function (option) astar_loop :: "string \<Rightarrow> string \<Rightarrow> bool \<Rightarrow> search \<Rightarrow> (string list option \<times> engine) option" where
  "astar_loop start end useHeuristic s =
     (if openSet s = [] then Some (None, eng s)
      else
        (case lowest (openSet s) None PosInf of
           None \<Rightarrow> None
         | Some current \<Rightarrow>
             if current = end then
               (case reconstruct (cameFrom s) (Some current) [] of
                  None \<Rightarrow> None
                | Some path \<Rightarrow>
                    Some (Some path,
                      (eng s)\<lparr> precomputedPaths :=
                        (precomputedPaths (eng s))(cache_key start end \<mapsto> path) \<rparr>))
             else astar_loop start end useHeuristic (expand current end useHeuristic s)))"

declare astar_loop.simps [code]

definition findPath :: "engine \<Rightarrow> string \<Rightarrow> string \<Rightarrow> bool \<Rightarrow> (string list option \<times> engine) option" where
  "findPath st start end useHeuristic =
     (if length start \<noteq> length end then Some (None, st)
      else if start = end then Some (Some [start], st)
      else
        (case precomputedPaths st (cache_key start end) of
           Some path \<Rightarrow> Some (Some path, st)
         | None \<Rightarrow>
             let (h, e1) = (if useHeuristic then heuristic st start end else (0, st))
             in astar_loop start end useHeuristic
                  \<lparr> openSet = [(start, Fin 0)], closedSet = [], cameFrom = Map.empty,
                    gScore = [start \<mapsto> 0], eng = e1 \<rparr>))"

section \<open>\<open>findPathBidirectional\<close>\<close>

text \<open>
  \<open>reconstructBidirectionalPath\<close>. The first loop walks \<open>forwardParent\<close> from the
  meeting point until it reaches \<open>start\<close>. When the walk arrives at a word without a
  parent, \<open>current\<close> becomes \<open>undefined\<close> and stays so: the loop then prepends
  \<open>undefined\<close> for ever (the result \<open>None\<close> of the option monad).
\<close>

partial_function (option) forward_walk :: "(string \<rightharpoonup> string) \<Rightarrow> string \<Rightarrow> string option \<Rightarrow> string list \<Rightarrow> string list option" where
  "forward_walk forwardParent start current forwardPath =
     (case current of
        None \<Rightarrow> forward_walk forwardParent start None forwardPath
      | Some c \<Rightarrow>
          if c = start then Some forwardPath
          else forward_walk forwardParent start (forwardParent c) (c # forwardPath))"

declare forward_walk.simps [code]

text \<open>The second loop walks \<open>backwardParent\<close> while the value is truthy and is not
  \<open>end\<close>; it returns the path and the value it stopped at.\<close>

partial_function (option) backward_walk :: "(string \<rightharpoonup> string) \<Rightarrow> string \<Rightarrow> string option \<Rightarrow> string list \<Rightarrow> (string list \<times> string option) option" where
  "backward_walk backwardParent end current backwardPath =
     (case current of
        None \<Rightarrow> Some (backwardPath, None)
      | Some c \<Rightarrow>
          if c = [] \<or> c = end then Some (backwardPath, Some c)
          else backward_walk backwardParent end (backwardParent c) (backwardPath @ [c]))"

declare backward_walk.simps [code]

definition reconstructBidirectionalPath :: "string \<Rightarrow> (string \<rightharpoonup> string) \<Rightarrow> (string \<rightharpoonup> string) \<Rightarrow> string \<Rightarrow> string \<Rightarrow> string list option" where
  "reconstructBidirectionalPath meetingPoint forwardParent backwardParent start end =
     (case forward_walk forwardParent start (Some meetingPoint) [] of
        None \<Rightarrow> None
      | Some forwardPath \<Rightarrow>
          (case backward_walk backwardParent end (backwardParent meetingPoint) [] of
             None \<Rightarrow> None
           | Some (backwardPath, current) \<Rightarrow>
               Some ((start # forwardPath)
                     @ (if current = Some end then backwardPath @ [end] else backwardPath))))"

text \<open>
  One side of the search: its queue, the levels of the words it has visited and their
  parents. The two frontiers are expanded by the same code with the sides exchanged.
\<close>

record side =
  queue :: "string list"
  visited :: "string \<rightharpoonup> nat"
  parent :: "string \<rightharpoonup> string"

text \<open>What a frontier expansion ends with: the word at which the frontiers met (with the
  side as it is at that moment), or the side after the expansion.\<close>

datatype scan = Met string side | Expanded side

text \<open>The loop over the neighbours of \<open>current\<close>: it returns at the first neighbour that
  the other side has visited.\<close>

fun scan_neighbors :: "(string \<rightharpoonup> nat) \<Rightarrow> nat \<Rightarrow> string \<Rightarrow> side \<Rightarrow> string list \<Rightarrow> scan" where
  "scan_neighbors other level current own [] = Expanded own"
| "scan_neighbors other level current own (neighbor # rest) =
     (if other neighbor \<noteq> None then Met neighbor own
      else if visited own neighbor = None then
        scan_neighbors other level current
          (own\<lparr> visited := (visited own)(neighbor \<mapsto> level),
                parent := (parent own)(neighbor \<mapsto> current),
                queue := queue own @ [neighbor] \<rparr>) rest
      else scan_neighbors other level current own rest)"

text \<open>The loop \<open>for (i = 0; i < size; i++)\<close> that takes \<open>size\<close> words off the front of the
  queue. (The queue never holds fewer; on an empty queue \<open>shift\<close> gives \<open>undefined\<close>, which
  has no neighbours.)\<close>

fun expand_frontier :: "(string \<times> string list) list \<Rightarrow> (string \<rightharpoonup> nat) \<Rightarrow> nat \<Rightarrow> nat \<Rightarrow> side \<Rightarrow> scan" where
  "expand_frontier g other level 0 own = Expanded own"
| "expand_frontier g other level (Suc n) own =
     (case queue own of
        [] \<Rightarrow> expand_frontier g other level n own
      | current # q \<Rightarrow>
          (case scan_neighbors other level current (own\<lparr> queue := q \<rparr>) (neighbors g current) of
             Met neighbor own' \<Rightarrow> Met neighbor own'
           | Expanded own' \<Rightarrow> expand_frontier g other level n own'))"

text \<open>The \<open>while\<close> loop over the levels: the forward frontier, then the backward one.\<close>

partial_function (option) bidirectional_loop :: "(string \<times> string list) list \<Rightarrow> string \<Rightarrow> string \<Rightarrow> nat \<Rightarrow> side \<Rightarrow> side \<Rightarrow> string list option option" where
  "bidirectional_loop g start end level forward backward =
     (if queue forward \<noteq> [] \<and> queue backward \<noteq> [] then
        (case expand_frontier g (visited backward) (Suc level) (length (queue forward)) forward of
           Met neighbor forward' \<Rightarrow>
             (case reconstructBidirectionalPath neighbor (parent forward') (parent backward) start end of
                None \<Rightarrow> None
              | Some path \<Rightarrow> Some (Some path))
         | Expanded forward' \<Rightarrow>
             (case expand_frontier g (visited forward') (Suc level) (length (queue backward)) backward of
                Met neighbor backward' \<Rightarrow>
                  (case reconstructBidirectionalPath neighbor (parent forward') (parent backward') start end of
                     None \<Rightarrow> None
                   | Some path \<Rightarrow> Some (Some path))
              | Expanded backward' \<Rightarrow>
                  bidirectional_loop g start end (Suc level) forward' backward'))
      else Some None)"

declare bidirectional_loop.simps [code]

text \<open>\<open>findPathBidirectional\<close> reads the graph and nothing else of the engine, and changes
  nothing: its result is the path alone.\<close>

definition findPathBidirectional :: "engine \<Rightarrow> string \<Rightarrow> string \<Rightarrow> string list option option" where
  "findPathBidirectional st start end =
     (if length start \<noteq> length end then Some None
      else if start = end then Some (Some [start])
      else bidirectional_loop (wordGraph st) start end 0
             \<lparr> queue = [start], visited = [start \<mapsto> 0], parent = Map.empty \<rparr>
             \<lparr> queue = [end], visited = [end \<mapsto> 0], parent = Map.empty \<rparr>)"

section \<open>Random numbers\<close>

text \<open>
  \<open>Math.random()\<close> returns a number \<open>r\<close> with \<open>0 \<le> r < 1\<close>. A value of type \<open>draw\<close> is
  one such number (a binary64 number: rounding leaves it as it is). The source of random
  numbers is a sequence of draws together with the number of draws already taken.
\<close>

typedef draw = "{r :: rat. 0 \<le> r \<and> r < 1 \<and> fl r = r}"
  by (rule exI [of _ 0]) (simp add: fl_def)

type_synonym rng = "(nat \<Rightarrow> draw) \<times> nat"

definition random :: "rng \<Rightarrow> rat \<times> rng" where
  "random rs = (Rep_draw (fst rs (snd rs)), (fst rs, Suc (snd rs)))"

text \<open>\<open>Math.floor(Math.random() * n)\<close>.\<close>

definition random_index :: "rng \<Rightarrow> nat \<Rightarrow> nat \<times> rng" where
  "random_index rs n = (nat \<lfloor>fl (fst (random rs) * of_nat n)\<rfloor>, snd (random rs))"

text \<open>Reading an array at an index: \<open>undefined\<close> (here \<open>None\<close>) outside the array.\<close>

definition at_index :: "'a list \<Rightarrow> nat \<Rightarrow> 'a option" where
  "at_index xs i = (if i < length xs then Some (xs ! i) else None)"

section \<open>\<open>generateRandomPair\<close> and \<open>calculateDifficulty\<close>\<close>

record pair_result =
  start_word :: string
  end_word :: string
  optimalLength :: nat

text \<open>The two array reads of one sampling attempt.\<close>

definition sample_words :: "rng \<Rightarrow> string list \<Rightarrow> string option \<times> string option \<times> rng" where
  "sample_words rs wordsOfLength =
     (case random_index rs (length wordsOfLength) of
        (i, rs1) \<Rightarrow>
          (case random_index rs1 (length wordsOfLength) of
             (j, rs2) \<Rightarrow> (at_index wordsOfLength i, at_index wordsOfLength j, rs2)))"

text \<open>
  The sampling loop. A draw of type \<open>draw\<close> always gives an index inside the array, so
  both words are defined; were both \<open>undefined\<close>, the comparison
  \<open>undefined !== undefined\<close> would be false and the attempt would be over, and with
  exactly one \<open>undefined\<close> the call of \<open>findPath\<close> would read \<open>length\<close> of \<open>undefined\<close> and
  throw (here: no result). The result carries the engine (its caches are filled by
  \<open>findPath\<close>) and the random source.
\<close>

function sample_loop :: "engine \<Rightarrow> rng \<Rightarrow> string list \<Rightarrow> nat \<Rightarrow> (pair_result option \<times> engine \<times> rng) option" where
  "sample_loop st rs wordsOfLength attempts =
     (if attempts < 100 then
        (case sample_words rs wordsOfLength of
           (Some startWord, Some endWord, rs') \<Rightarrow>
             if startWord \<noteq> endWord then
               (case findPath st startWord endWord True of
                  None \<Rightarrow> None
                | Some (Some path, st1) \<Rightarrow>
                    if 2 < length path \<and> length path < 8 then
                      Some (Some \<lparr> start_word = startWord, end_word = endWord,
                                    optimalLength = length path \<rparr>, st1, rs')
                    else sample_loop st1 rs' wordsOfLength (Suc attempts)
                | Some (None, st1) \<Rightarrow> sample_loop st1 rs' wordsOfLength (Suc attempts))
             else sample_loop st rs' wordsOfLength (Suc attempts)
         | (None, None, rs') \<Rightarrow> sample_loop st rs' wordsOfLength (Suc attempts)
         | _ \<Rightarrow> None)
      else Some (None, st, rs))"
  by pat_completeness auto
termination
  by (relation "measure (\<lambda>(st, rs, ws, attempts). 100 - attempts)") auto

definition generateRandomPair :: "engine \<Rightarrow> rng \<Rightarrow> nat \<Rightarrow> (pair_result option \<times> engine \<times> rng) option" where
  "generateRandomPair st rs wordLength =
     (let wordsOfLength = (case map_of (wordsByLength st) wordLength of None \<Rightarrow> [] | Some ws \<Rightarrow> ws)
      in if length wordsOfLength < 2 then Some (None, st, rs)
         else sample_loop st rs wordsOfLength 0)"

text \<open>
  \<open>calculateDifficulty\<close>. The variable the code calls \<open>hammingDistance\<close> is the value of
  \<open>this.heuristic(startWord, endWord)\<close>. The sum of the neighbour counts and the product
  \<open>pathLength * 10\<close> are whole numbers and exact; the quotient, the product with 5, the
  difference and the two sums are rounded. The average over an empty path is \<open>0 / 0\<close>,
  which is \<open>NaN\<close>.
\<close>

datatype difficulty_value = Score rat | InfiniteScore | NaN

definition calculateDifficulty :: "engine \<Rightarrow> string \<Rightarrow> string \<Rightarrow> (difficulty_value \<times> engine) option" where
  "calculateDifficulty st startWord endWord =
     (case findPath st startWord endWord True of
        None \<Rightarrow> None
      | Some (None, st1) \<Rightarrow> Some (InfiniteScore, st1)
      | Some (Some path, st1) \<Rightarrow>
          (case heuristic st1 startWord endWord of
             (hammingDistance, st2) \<Rightarrow>
               if path = [] then Some (NaN, st2)
               else
                 Some (Score
                         (fl (fl (of_nat (length path) * 10 + fl (hammingDistance * 5))
                              + fl (10 - fl (of_nat (sum_list (map (\<lambda>word. length (getNeighbors st2 word)) path))
                                             / of_nat (length path))))),
                       st2)))"

section \<open>The AI strategies\<close>

text \<open>
  The filters \<open>heuristic(word, target) <= heuristic(current, target)\<close> and
  \<open>heuristic(word, target) <= heuristic(current, target) + 1\<close> over a list of words; both
  calls go through the cache, the one for \<open>word\<close> first. \<open>bound\<close> is what is done to the
  estimate of the current word: nothing, or the addition of 1.
\<close>

fun filter_within :: "engine \<Rightarrow> string \<Rightarrow> string \<Rightarrow> (rat \<Rightarrow> rat) \<Rightarrow> string list \<Rightarrow> string list \<times> engine" where
  "filter_within st currentWord targetWord bound [] = ([], st)"
| "filter_within st currentWord targetWord bound (word # rest) =
     (case heuristic st word targetWord of
        (hw, st1) \<Rightarrow>
          (case heuristic st1 currentWord targetWord of
             (hc, st2) \<Rightarrow>
               (case filter_within st2 currentWord targetWord bound rest of
                  (kept, st3) \<Rightarrow> (if hw \<le> bound hc then word # kept else kept, st3))))"

text \<open>\<open>array[Math.floor(Math.random() * array.length)]\<close>.\<close>

definition random_element :: "rng \<Rightarrow> 'a list \<Rightarrow> 'a option \<times> rng" where
  "random_element rs xs = (case random_index rs (length xs) of (i, rs1) \<Rightarrow> (at_index xs i, rs1))"

text \<open>In the results of the strategies \<open>None\<close> is \<open>null\<close> (or \<open>undefined\<close>): no move.\<close>

definition selectEasyMove :: "engine \<Rightarrow> rng \<Rightarrow> string \<Rightarrow> string \<Rightarrow> string option \<times> engine \<times> rng" where
  "selectEasyMove st rs currentWord targetWord =
     (if neighbors (wordGraph st) currentWord = [] then (None, st, rs)
      else
        (case random rs of
           (r, rs1) \<Rightarrow>
             if r < fl (3 / 10) then
               (case random_element rs1 (neighbors (wordGraph st) currentWord) of
                  (m, rs2) \<Rightarrow> (m, st, rs2))
             else
               (case filter_within st currentWord targetWord (\<lambda>hc. hc)
                       (neighbors (wordGraph st) currentWord) of
                  (validMoves, st1) \<Rightarrow>
                    if validMoves \<noteq> [] then
                      (case random_element rs1 validMoves of (m, rs2) \<Rightarrow> (m, st1, rs2))
                    else
                      (case random_element rs1 (neighbors (wordGraph st) currentWord) of
                         (m, rs2) \<Rightarrow> (m, st1, rs2)))))"

text \<open>The \<open>reduce\<close> of the two-step lookahead, starting from \<open>Infinity\<close>.\<close>

fun best_lookahead :: "engine \<Rightarrow> string \<Rightarrow> string list \<Rightarrow> jsnum \<Rightarrow> jsnum \<times> engine" where
  "best_lookahead st targetWord [] best = (best, st)"
| "best_lookahead st targetWord (nn # rest) best =
     (case heuristic st nn targetWord of
        (sc, st1) \<Rightarrow> best_lookahead st1 targetWord rest (if Fin sc < best then Fin sc else best))"

text \<open>\<open>baseScore + bestLookahead * 0.3\<close>.\<close>

definition lookahead_score :: "rat \<Rightarrow> jsnum \<Rightarrow> jsnum" where
  "lookahead_score baseScore bestLookahead =
     (case bestLookahead of
        Fin b \<Rightarrow> Fin (fl (baseScore + fl (b * fl (3 / 10))))
      | PosInf \<Rightarrow> PosInf
      | NegInf \<Rightarrow> NegInf)"

fun score_moves :: "engine \<Rightarrow> string \<Rightarrow> string list \<Rightarrow> (string \<times> jsnum) list \<times> engine" where
  "score_moves st targetWord [] = ([], st)"
| "score_moves st targetWord (neighbor # rest) =
     (case heuristic st neighbor targetWord of
        (baseScore, st1) \<Rightarrow>
          (case best_lookahead st1 targetWord (neighbors (wordGraph st1) neighbor) PosInf of
             (bestLookahead, st2) \<Rightarrow>
               (case score_moves st2 targetWord rest of
                  (scored, st3) \<Rightarrow>
                    ((neighbor, lookahead_score baseScore bestLookahead) # scored, st3))))"

text \<open>
  \<open>Array.prototype.sort\<close> is stable, and the comparator \<open>a.score - b.score\<close> orders by
  score (two infinite scores give \<open>NaN\<close>, which counts as equal); \<open>sort_key\<close> is the stable
  sort by a key.
\<close>

definition selectMediumMove :: "engine \<Rightarrow> rng \<Rightarrow> string \<Rightarrow> string \<Rightarrow> string option \<times> engine \<times> rng" where
  "selectMediumMove st rs currentWord targetWord =
     (if neighbors (wordGraph st) currentWord = [] then (None, st, rs)
      else
        (case score_moves st targetWord (neighbors (wordGraph st) currentWord) of
           (unsorted, st1) \<Rightarrow>
             (case random rs of
                (r, rs1) \<Rightarrow>
                  if r < fl (7 / 10) then
                    (map_option fst (at_index (sort_key snd unsorted) 0), st1, rs1)
                  else
                    (case random_element rs1
                            (take (min 3 (length unsorted)) (sort_key snd unsorted)) of
                       (m, rs2) \<Rightarrow> (map_option fst m, st1, rs2)))))"

text \<open>\<open>findBlockingMove\<close>: the first neighbour of the AI's word that lies strictly inside
  the player's path.\<close>

definition findBlockingMove :: "engine \<Rightarrow> string \<Rightarrow> string \<Rightarrow> string \<Rightarrow> (string option \<times> engine) option" where
  "findBlockingMove st aiWord playerWord targetWord =
     (case findPath st playerWord targetWord True of
        None \<Rightarrow> None
      | Some (None, st1) \<Rightarrow> Some (None, st1)
      | Some (Some playerPath, st1) \<Rightarrow>
          if length playerPath < 3 then Some (None, st1)
          else
            Some (at_index
                    (filter (\<lambda>m. m \<in> set (butlast (tl playerPath)))
                       (neighbors (wordGraph st1) aiWord)) 0,
                  st1))"

text \<open>The last part of \<open>selectHardMove\<close>: the next word of the optimal path, or with
  probability \<open>0.2\<close> another neighbour that is at most one further away.\<close>

definition follow_path :: "engine \<Rightarrow> rng \<Rightarrow> string \<Rightarrow> string \<Rightarrow> string list \<Rightarrow> string option \<times> engine \<times> rng" where
  "follow_path st rs currentWord targetWord optimalPath =
     (case random rs of
        (r, rs1) \<Rightarrow>
          if r < fl (2 / 10) then
            (case filter_within st currentWord targetWord (\<lambda>hc. fl (hc + 1))
                    (filter (\<lambda>word. Some word \<noteq> at_index optimalPath 1)
                       (neighbors (wordGraph st) currentWord)) of
               (alternatives, st1) \<Rightarrow>
                 if alternatives \<noteq> [] then
                   (case random_element rs1 alternatives of (m, rs2) \<Rightarrow> (m, st1, rs2))
                 else (at_index optimalPath 1, st1, rs1))
          else (at_index optimalPath 1, st, rs1))"

text \<open>
  \<open>selectHardMove\<close>. The test \<open>playerCurrentWord && Math.random() < 0.3\<close> draws a random
  number only when the player's ladder has a last word and that word is not the empty
  string; a blocking move is taken when it is truthy.
\<close>

definition selectHardMove :: "engine \<Rightarrow> rng \<Rightarrow> string \<Rightarrow> string \<Rightarrow> string list \<Rightarrow> (string option \<times> engine \<times> rng) option" where
  "selectHardMove st rs currentWord targetWord playerLadder =
     (case findPath st currentWord targetWord True of
        None \<Rightarrow> None
      | Some (None, st1) \<Rightarrow> Some (selectMediumMove st1 rs currentWord targetWord)
      | Some (Some optimalPath, st1) \<Rightarrow>
          if length optimalPath < 2 then Some (selectMediumMove st1 rs currentWord targetWord)
          else if playerLadder \<noteq> [] \<and> last playerLadder \<noteq> [] then
            (case random rs of
               (r, rs1) \<Rightarrow>
                 if r < fl (3 / 10) then
                   (case findBlockingMove st1 currentWord (last playerLadder) targetWord of
                      None \<Rightarrow> None
                    | Some (blockingMove, st2) \<Rightarrow>
                        if blockingMove \<noteq> None \<and> blockingMove \<noteq> Some [] then
                          Some (blockingMove, st2, rs1)
                        else Some (follow_path st2 rs1 currentWord targetWord optimalPath))
                 else Some (follow_path st1 rs1 currentWord targetWord optimalPath))
          else Some (follow_path st1 rs currentWord targetWord optimalPath))"

subsection \<open>Expert: minimax with alpha-beta pruning\<close>

text \<open>
  \<open>evaluatePosition\<close>: \<open>100 - distanceToTarget - pathLength * 2\<close>, where the path length
  is \<open>Infinity\<close> when there is no path (or the path is empty), plus the bonus for being ahead
  of the player when a ladder is given. Each difference, product and sum is rounded (the
  product \<open>pathLength * 2\<close> is a whole number and exact).
\<close>

definition evaluatePosition :: "engine \<Rightarrow> string \<Rightarrow> string \<Rightarrow> string list \<Rightarrow> (jsnum \<times> engine) option" where
  "evaluatePosition st currentWord targetWord playerLadder =
     (case heuristic st currentWord targetWord of
        (distanceToTarget, st1) \<Rightarrow>
          (case findPath st1 currentWord targetWord True of
             None \<Rightarrow> None
           | Some (path, st2) \<Rightarrow>
               if playerLadder \<noteq> [] then
                 (case heuristic st2 (last playerLadder) targetWord of
                    (playerDistance, st3) \<Rightarrow>
                      Some (case path of
                              None \<Rightarrow> NegInf
                            | Some p \<Rightarrow>
                                if p = [] then NegInf
                                else Fin (fl (fl (fl (100 - distanceToTarget) - of_nat (length p) * 2)
                                              + fl (fl (playerDistance - distanceToTarget) * 10))),
                            st3))
               else
                 Some (case path of
                         None \<Rightarrow> NegInf
                       | Some p \<Rightarrow>
                           if p = [] then NegInf
                           else Fin (fl (fl (100 - distanceToTarget) - of_nat (length p) * 2)),
                       st2)))"

record minimax_result =
  score :: jsnum
  move :: "string option"

text \<open>
  The two loops of \<open>minimax\<close> over the neighbours. They carry \<open>alpha\<close>, \<open>beta\<close>, the
  best score and the best move, and leave at \<open>beta <= alpha\<close>. The search below a
  neighbour (the recursive call of \<open>minimax\<close> with \<open>depth - 1\<close>) is the parameter \<open>child\<close>:
  it takes the engine, the neighbour, \<open>alpha\<close>, \<open>beta\<close> and \<open>isMaximizing\<close>.
\<close>

type_synonym child_search =
  "engine \<Rightarrow> string \<Rightarrow> jsnum \<Rightarrow> jsnum \<Rightarrow> bool \<Rightarrow> (minimax_result \<times> engine) option"

fun max_loop :: "child_search \<Rightarrow> engine \<Rightarrow> jsnum \<Rightarrow> jsnum \<Rightarrow> string list \<Rightarrow> jsnum \<Rightarrow> string option \<Rightarrow> (minimax_result \<times> engine) option" where
  "max_loop child st alpha beta [] maxScore bestMove =
     Some (\<lparr> score = maxScore, move = bestMove \<rparr>, st)"
| "max_loop child st alpha beta (neighbor # rest) maxScore bestMove =
     (case child st neighbor alpha beta False of
        None \<Rightarrow> None
      | Some (result, st1) \<Rightarrow>
          if beta \<le> max alpha (score result) then
            Some (\<lparr> score = (if maxScore < score result then score result else maxScore),
                    move = (if maxScore < score result then Some neighbor else bestMove) \<rparr>, st1)
          else
            max_loop child st1 (max alpha (score result)) beta rest
              (if maxScore < score result then score result else maxScore)
              (if maxScore < score result then Some neighbor else bestMove))"

fun min_loop :: "child_search \<Rightarrow> engine \<Rightarrow> jsnum \<Rightarrow> jsnum \<Rightarrow> string list \<Rightarrow> jsnum \<Rightarrow> string option \<Rightarrow> (minimax_result \<times> engine) option" where
  "min_loop child st alpha beta [] minScore bestMove =
     Some (\<lparr> score = minScore, move = bestMove \<rparr>, st)"
| "min_loop child st alpha beta (neighbor # rest) minScore bestMove =
     (case child st neighbor alpha beta True of
        None \<Rightarrow> None
      | Some (result, st1) \<Rightarrow>
          if min beta (score result) \<le> alpha then
            Some (\<lparr> score = (if score result < minScore then score result else minScore),
                    move = (if score result < minScore then Some neighbor else bestMove) \<rparr>, st1)
          else
            min_loop child st1 alpha (min beta (score result)) rest
              (if score result < minScore then score result else minScore)
              (if score result < minScore then Some neighbor else bestMove))"

text \<open>\<open>minimax\<close>, by recursion on the depth.\<close>

primrec minimax_depth :: "nat \<Rightarrow> string \<Rightarrow> string list \<Rightarrow> child_search" where
  "minimax_depth 0 targetWord playerLadder =
     (\<lambda>st currentWord alpha beta isMaximizing.
        case evaluatePosition st currentWord targetWord playerLadder of
          None \<Rightarrow> None
        | Some (sc, st1) \<Rightarrow> Some (\<lparr> score = sc, move = None \<rparr>, st1))"
| "minimax_depth (Suc depth) targetWord playerLadder =
     (\<lambda>st currentWord alpha beta isMaximizing.
        if currentWord = targetWord then
          (case evaluatePosition st currentWord targetWord playerLadder of
             None \<Rightarrow> None
           | Some (sc, st1) \<Rightarrow> Some (\<lparr> score = sc, move = None \<rparr>, st1))
        else if neighbors (wordGraph st) currentWord = [] then
          Some (\<lparr> score = (if isMaximizing then NegInf else PosInf), move = None \<rparr>, st)
        else if isMaximizing then
          max_loop (minimax_depth depth targetWord playerLadder) st alpha beta
            (neighbors (wordGraph st) currentWord) NegInf None
        else
          min_loop (minimax_depth depth targetWord playerLadder) st alpha beta
            (neighbors (wordGraph st) currentWord) PosInf None)"

definition minimax :: "engine \<Rightarrow> string \<Rightarrow> string \<Rightarrow> nat \<Rightarrow> jsnum \<Rightarrow> jsnum \<Rightarrow> bool \<Rightarrow> string list \<Rightarrow> (minimax_result \<times> engine) option" where
  "minimax st currentWord targetWord depth alpha beta isMaximizing playerLadder =
     minimax_depth depth targetWord playerLadder st currentWord alpha beta isMaximizing"

definition selectExpertMove :: "engine \<Rightarrow> string \<Rightarrow> string \<Rightarrow> string list \<Rightarrow> (string option \<times> engine) option" where
  "selectExpertMove st currentWord targetWord playerLadder =
     (case minimax st currentWord targetWord 4 NegInf PosInf True playerLadder of
        None \<Rightarrow> None
      | Some (result, st1) \<Rightarrow> Some (move result, st1))"

subsection \<open>\<open>selectAIMove\<close>\<close>

text \<open>
  The object \<open>strategies\<close> has the four own properties \<open>easy\<close>, \<open>medium\<close>, \<open>hard\<close> and
  \<open>expert\<close>. A property read \<open>strategies[difficulty]\<close> that finds no own property goes on
  to the prototype of an object literal, \<open>Object.prototype\<close>, whose properties are functions
  (\<open>toString\<close>, \<open>valueOf\<close>, ...) apart from the accessor \<open>__proto__\<close>; when nothing is found
  the value is \<open>undefined\<close>, and calling \<open>undefined\<close> (or an object) throws a \<open>TypeError\<close>.
\<close>

datatype strategy = Easy | Medium | Hard | Expert

definition own_strategy :: "string \<Rightarrow> strategy option" where
  "own_strategy difficulty =
     (if difficulty = ''easy'' then Some Easy
      else if difficulty = ''medium'' then Some Medium
      else if difficulty = ''hard'' then Some Hard
      else if difficulty = ''expert'' then Some Expert
      else None)"

text \<open>What a call can give back besides a move: the values returned by the inherited
  functions.\<close>

datatype inherited_value = StringValue string | BoolValue bool | ObjectValue | UndefinedValue | FunctionValue

datatype ai_outcome = TypeError | Move "string option" | Other inherited_value

text \<open>
  The call \<open>strategies[name](currentWord, targetWord, playerLadder)\<close> for a name that is
  not an own property, with \<open>this = strategies\<close>: \<open>toString\<close> and \<open>toLocaleString\<close> give
  \<open>"[object Object]"\<close>; \<open>valueOf\<close> gives the object; \<open>constructor\<close> is \<open>Object\<close> and wraps its
  argument in an object; \<open>hasOwnProperty\<close> and \<open>propertyIsEnumerable\<close> test whether the
  first argument names an own property; \<open>isPrototypeOf\<close> of a string is false;
  \<open>__lookupGetter__\<close> and \<open>__lookupSetter__\<close> find an accessor only for \<open>__proto__\<close>.
  \<open>__defineGetter__\<close> and \<open>__defineSetter__\<close> throw a \<open>TypeError\<close> because the second argument
  is not a function, and every other name gives a value that cannot be called.
\<close>

definition inherited_call :: "string \<Rightarrow> string \<Rightarrow> ai_outcome" where
  "inherited_call name currentWord =
     (if name = ''toString'' \<or> name = ''toLocaleString'' then
        Other (StringValue ''[object Object]'')
      else if name = ''valueOf'' \<or> name = ''constructor'' then Other ObjectValue
      else if name = ''hasOwnProperty'' \<or> name = ''propertyIsEnumerable'' then
        Other (BoolValue (own_strategy currentWord \<noteq> None))
      else if name = ''isPrototypeOf'' then Other (BoolValue False)
      else if name = ''__lookupGetter__'' \<or> name = ''__lookupSetter__'' then
        Other (if currentWord = ''__proto__'' then FunctionValue else UndefinedValue)
      else TypeError)"

definition selectAIMove :: "engine \<Rightarrow> rng \<Rightarrow> string \<Rightarrow> string \<Rightarrow> string \<Rightarrow> string list \<Rightarrow> (ai_outcome \<times> engine \<times> rng) option" where
  "selectAIMove st rs currentWord targetWord difficulty playerLadder =
     (case own_strategy difficulty of
        Some Easy \<Rightarrow>
          (case selectEasyMove st rs currentWord targetWord of
             (m, st1, rs1) \<Rightarrow> Some (Move m, st1, rs1))
      | Some Medium \<Rightarrow>
          (case selectMediumMove st rs currentWord targetWord of
             (m, st1, rs1) \<Rightarrow> Some (Move m, st1, rs1))
      | Some Hard \<Rightarrow>
          (case selectHardMove st rs currentWord targetWord playerLadder of
             None \<Rightarrow> None
           | Some (m, st1, rs1) \<Rightarrow> Some (Move m, st1, rs1))
      | Some Expert \<Rightarrow>
          (case selectExpertMove st currentWord targetWord playerLadder of
             None \<Rightarrow> None
           | Some (m, st1) \<Rightarrow> Some (Move m, st1, rs))
      | None \<Rightarrow> Some (inherited_call difficulty currentWord, st, rs))"

section \<open>The caller: \<open>loadWordList\<close> of \<open>game.js\<close>\<close>

text \<open>
  The part of the game object that loading touches. \<open>fetched\<close> is the text of
  \<open>wordlist.txt\<close>, or \<open>None\<close> when \<open>fetch\<close> or \<open>response.text()\<close> rejects; only then the
  \<open>catch\<close> branch runs and \<open>showError\<close> is called.
\<close>

record game =
  algorithm :: engine
  isInitialized :: bool
  errorMessage :: "string option"

definition new_game :: game where
  "new_game = \<lparr> algorithm = new_engine, isInitialized = False, errorMessage = None \<rparr>"

definition loadWordList :: "game \<Rightarrow> string option \<Rightarrow> game" where
  "loadWordList gm fetched =
     (case fetched of
        None \<Rightarrow> gm\<lparr> errorMessage := Some ''Failed to load word list. Please refresh the page.'' \<rparr>
      | Some text \<Rightarrow>
          gm\<lparr> algorithm :=
                initialize (algorithm gm)
                  (filter (\<lambda>line. trim line \<noteq> []) (split_on (CHR 0x0A) text)),
              isInitialized := True \<rparr>)"

section \<open>Auxiliary notions for the proofs\<close>

subsection \<open>Edit distance\<close>

text \<open>The classic recurrence of the edit distance, on the reversed prefixes.\<close>

fun ed :: "'a list \<Rightarrow> 'a list \<Rightarrow> nat" where
  "ed [] ys = length ys"
| "ed (x # xs) [] = Suc (length xs)"
| "ed (x # xs) (y # ys) =
     (if x = y then ed xs ys
      else min (ed xs ys + 1) (min (ed (x # xs) ys + 1) (ed xs (y # ys) + 1)))"

text \<open>A row of the matrix: the distances of \<open>u\<close> to the growing prefixes of a word.\<close>

fun erow :: "'a list \<Rightarrow> 'a list \<Rightarrow> 'a list \<Rightarrow> nat list" where
  "erow u acc [] = [ed u acc]"
| "erow u acc (a # rest) = ed u acc # erow u (a # acc) rest"

subsection \<open>The distances of the estimate\<close>

text \<open>The three distances of the estimate, as notions of their own: the number of
  positions at which two words differ, the least number of single-character edits, and
  the sum over the characters of either word of the difference of their counts.\<close>

definition differing_positions :: "string \<Rightarrow> string \<Rightarrow> nat" where
  "differing_positions a b = length (filter (\<lambda>(x, y). x \<noteq> y) (zip a b))"

definition frequency_difference :: "string \<Rightarrow> string \<Rightarrow> nat" where
  "frequency_difference a b =
     (\<Sum>c \<in> set a \<union> set b. nat \<bar>int (count_list a c) - int (count_list b c)\<bar>)"

text \<open>Edit scripts: \<open>edits xs ys n\<close> when \<open>xs\<close> can be turned into \<open>ys\<close> by \<open>n\<close> insertions,
  deletions and substitutions of single elements.\<close>

inductive edits :: "'a list \<Rightarrow> 'a list \<Rightarrow> nat \<Rightarrow> bool" where
  empty: "edits [] [] 0"
| keep: "edits xs ys n \<Longrightarrow> edits (x # xs) (x # ys) n"
| substitution: "edits xs ys n \<Longrightarrow> edits (x # xs) (y # ys) (Suc n)"
| deletion: "edits xs ys n \<Longrightarrow> edits (x # xs) ys (Suc n)"
| insertion: "edits xs ys n \<Longrightarrow> edits xs (y # ys) (Suc n)"

subsection \<open>Engines whose cached estimates come from queries on words\<close>

text \<open>
  An engine is in this class when its heuristic cache is empty, or when it results from
  such an engine by a call of \<open>heuristic\<close> on two words, in any order and any number of
  times.
\<close>

inductive words_cached :: "engine \<Rightarrow> bool" where
  fresh: "heuristicCache st = Map.empty \<Longrightarrow> words_cached st"
| query: "words_cached st \<Longrightarrow> is_word a \<Longrightarrow> is_word b \<Longrightarrow> words_cached (snd (heuristic st a b))"


subsection \<open>Notions for the word graph\<close>

text \<open>Two words of equal length that differ in exactly one position.\<close>

definition one_letter_apart :: "string \<Rightarrow> string \<Rightarrow> bool" where
  "one_letter_apart u v =
     (length u = length v
      \<and> (\<exists>i<length u. u ! i \<noteq> v ! i \<and> (\<forall>k<length u. k \<noteq> i \<longrightarrow> u ! k = v ! k)))"

text \<open>The (pattern, word) pairs in the order in which \<open>buildWordGraph\<close> pushes them,
  and the list stored under a key of an insertion-ordered map (empty when the key is absent).\<close>

definition pushes :: "string list \<Rightarrow> (string \<times> string) list" where
  "pushes ws = concat (map (\<lambda>w. map (\<lambda>i. (pattern w i, w)) [0..<length w]) ws)"

definition content :: "('k \<times> 'v list) list \<Rightarrow> 'k \<Rightarrow> 'v list" where
  "content m k = (case map_of m k of None \<Rightarrow> [] | Some l \<Rightarrow> l)"


subsection \<open>Notions for the caches\<close>

text \<open>The cached estimates for a target word are the values of the heuristic.\<close>

definition estimates_consistent :: "engine \<Rightarrow> string \<Rightarrow> bool" where
  "estimates_consistent st target =
     (\<forall>a v. heuristicCache st (cache_key a target) = Some v \<longrightarrow> v = heuristicValue a target)"

text \<open>Two engines that differ at most in their heuristic caches.\<close>

definition same_but_estimates :: "engine \<Rightarrow> engine \<Rightarrow> bool" where
  "same_but_estimates st st' =
     (wordSet st' = wordSet st \<and> wordGraph st' = wordGraph st
      \<and> wordsByLength st' = wordsByLength st \<and> precomputedPaths st' = precomputedPaths st)"


section \<open>Rounding to binary64\<close>

lemma pow2_powi: "pow2 k = 2 powi k"
  by (simp add: pow2_def power_int_def inverse_eq_divide power_one_over)

lemma pow2_pos [simp]: "0 < pow2 k"
  by (simp add: pow2_powi)

lemma pow2_nonzero [simp]: "pow2 k \<noteq> 0"
  by (simp add: pow2_powi)

lemma pow2_nonneg [simp]: "0 \<le> pow2 k"
  by (simp add: pow2_powi)

lemma abs_pow2 [simp]: "\<bar>pow2 k\<bar> = pow2 k"
  by (simp add: pow2_powi)

lemma pow2_add: "pow2 (a + b) = pow2 a * pow2 b"
  by (simp add: pow2_powi power_int_add)

lemma pow2_diff: "pow2 (a - b) = pow2 a / pow2 b"
  by (simp add: pow2_powi power_int_diff)

lemma pow2_less_iff [simp]: "pow2 a < pow2 b \<longleftrightarrow> a < b"
proof
  assume "a < b"
  then show "pow2 a < pow2 b"
    by (simp add: pow2_powi power_int_strict_increasing)
next
  assume l: "pow2 a < pow2 b"
  show "a < b"
  proof (rule ccontr)
    assume "\<not> a < b"
    then have "b \<le> a" by simp
    then have "pow2 b \<le> pow2 a"
      by (simp add: pow2_powi power_int_increasing)
    with l show False by simp
  qed
qed

lemma pow2_le_iff [simp]: "pow2 a \<le> pow2 b \<longleftrightarrow> a \<le> b"
  using pow2_less_iff [of b a] by (simp add: not_less [symmetric] del: pow2_less_iff)

lemma pow2_nat: "0 \<le> k \<Longrightarrow> pow2 k = 2 ^ nat k"
  by (simp add: pow2_def)

lemma pow2_Suc: "pow2 (k + 1) = 2 * pow2 k"
  by (simp add: pow2_powi power_int_add)

lemma bitlen_bounds:
  "0 < i \<Longrightarrow> 0 < bitlen i \<and> 2 ^ nat (bitlen i - 1) \<le> i \<and> i < 2 ^ nat (bitlen i)"
proof (induction i rule: bitlen.induct)
  case (1 i)
  show ?case
  proof (cases "i div 2 \<le> 0")
    case True
    with 1(2) have "i = 1" by simp
    then show ?thesis
      by (simp add: bitlen.simps [of 1] bitlen.simps [of 0])
  next
    case False
    then have pos: "0 < i div 2" by simp
    from 1(1) 1(2) pos have IH: "0 < bitlen (i div 2)"
      "2 ^ nat (bitlen (i div 2) - 1) \<le> i div 2" "i div 2 < 2 ^ nat (bitlen (i div 2))"
      by simp_all
    have b: "bitlen i = 1 + bitlen (i div 2)"
      using 1(2) by (simp add: bitlen.simps [of i])
    have n: "nat (bitlen (i div 2)) = Suc (nat (bitlen (i div 2) - 1))"
      using IH(1) by simp
    have "(2::int) ^ nat (bitlen (i div 2)) = 2 * 2 ^ nat (bitlen (i div 2) - 1)"
      by (subst n) simp
    also have "\<dots> \<le> 2 * (i div 2)"
      using IH(2) by simp
    also have "\<dots> \<le> i" by simp
    finally have lo: "(2::int) ^ nat (bitlen i - 1) \<le> i"
      by (simp add: b)
    have "i div 2 + 1 \<le> 2 ^ nat (bitlen (i div 2))"
      using IH(3) by simp
    then have "2 * (i div 2) + 2 \<le> 2 * 2 ^ nat (bitlen (i div 2))"
      by simp
    moreover have "i < 2 * (i div 2) + 2" by presburger
    moreover have "nat (bitlen i) = Suc (nat (bitlen (i div 2)))"
      using IH(1) by (simp add: b)
    ultimately have hi: "i < 2 ^ nat (bitlen i)"
      by simp
    from lo hi IH(1) show ?thesis
      by (simp add: b)
  qed
qed

lemma bitlen_pow2:
  assumes "0 < i"
  shows "pow2 (bitlen i - 1) \<le> of_int i" and "of_int i < pow2 (bitlen i)"
proof -
  from bitlen_bounds [OF assms] have b: "0 < bitlen i"
    "2 ^ nat (bitlen i - 1) \<le> i" "i < 2 ^ nat (bitlen i)"
    by simp_all
  have "(of_int (2 ^ nat (bitlen i - 1)) :: rat) \<le> of_int i"
    using b(2) by (simp only: of_int_le_iff)
  then show "pow2 (bitlen i - 1) \<le> of_int i"
    using b(1) by (simp add: pow2_nat)
  have "(of_int i :: rat) < of_int (2 ^ nat (bitlen i))"
    using b(3) by (simp only: of_int_less_iff)
  then show "of_int i < pow2 (bitlen i)"
    using b(1) by (simp add: pow2_nat)
qed

lemma binary_exponent_bounds:
  assumes "0 < x"
  shows "pow2 (binary_exponent x) \<le> x" and "x < pow2 (binary_exponent x + 1)"
proof -
  obtain p q where pq: "quotient_of x = (p, q)"
    by (cases "quotient_of x")
  have q: "0 < q"
    using quotient_of_denom_pos [OF pq] .
  have x: "x = of_int p / of_int q"
    using quotient_of_div [OF pq] .
  have p: "0 < p"
    using assms q by (simp add: x zero_less_divide_iff)
  let ?d = "bitlen p - bitlen q"
  have qpos: "(0::rat) < of_int q" using q by simp
  have "x < pow2 (bitlen p) / pow2 (bitlen q - 1)"
    unfolding x
    using bitlen_pow2 [OF p] bitlen_pow2 [OF q] p q
    by (intro frac_less) simp_all
  then have up: "x < pow2 (?d + 1)"
    by (simp add: pow2_diff [symmetric] algebra_simps)
  have "pow2 (bitlen p - 1) / pow2 (bitlen q) \<le> x"
    unfolding x
    using bitlen_pow2 [OF p] bitlen_pow2 [OF q] p q
    by (intro frac_le) simp_all
  then have lo: "pow2 (?d - 1) \<le> x"
    by (simp add: pow2_diff [symmetric] algebra_simps)
  have e: "binary_exponent x = (if pow2 ?d \<le> x then ?d else ?d - 1)"
    by (simp add: binary_exponent_def pq Let_def)
  show "pow2 (binary_exponent x) \<le> x"
    using lo by (simp add: e)
  show "x < pow2 (binary_exponent x + 1)"
    using up by (simp add: e)
qed

lemma binary_exponent_unique:
  assumes "pow2 e \<le> x" and "x < pow2 (e + 1)"
  shows "binary_exponent x = e"
proof -
  have "0 < x"
    by (rule less_le_trans [OF pow2_pos assms(1)])
  note b = binary_exponent_bounds [OF this]
  from b(1) assms(2) have "pow2 (binary_exponent x) < pow2 (e + 1)"
    by (rule le_less_trans)
  moreover from assms(1) b(2) have "pow2 e < pow2 (binary_exponent x + 1)"
    by (rule le_less_trans)
  ultimately show ?thesis by simp
qed

lemma round_half_even_of_int [simp]: "round_half_even (of_int n) = n"
  by (simp add: round_half_even_def)

lemma round_half_even_near:
  assumes "\<bar>of_int n - m\<bar> < 1 / 2"
  shows "round_half_even m = n"
proof (cases "of_int n \<le> m")
  case True
  with assms have "\<lfloor>m\<rfloor> = n"
    by (intro floor_unique) simp_all
  with True assms show ?thesis
    by (simp add: round_half_even_def)
next
  case False
  with assms have f: "\<lfloor>m\<rfloor> = n - 1"
    by (intro floor_unique) simp_all
  with False assms have "\<not> m - of_int \<lfloor>m\<rfloor> < 1 / 2" "1 / 2 < m - of_int \<lfloor>m\<rfloor>"
    by simp_all
  then show ?thesis
    by (simp add: round_half_even_def f)
qed

lemma round_half_even_error: "\<bar>of_int (round_half_even m) - m\<bar> \<le> 1 / 2"
proof -
  have "of_int \<lfloor>m\<rfloor> \<le> m" "m < of_int \<lfloor>m\<rfloor> + 1"
    by linarith+
  then show ?thesis
    by (simp add: round_half_even_def abs_le_iff)
qed

text \<open>How a rounding is computed by hand: from the exponent and the rounded significand.\<close>

lemma fl_eqI:
  assumes "pow2 e \<le> \<bar>x\<bar>" and "\<bar>x\<bar> < pow2 (e + 1)"
    and "\<bar>of_int n - x / pow2 (e - 52)\<bar> < 1 / 2"
    and "y = of_int n * pow2 (e - 52)"
  shows "fl x = y"
proof -
  have "0 < \<bar>x\<bar>"
    by (rule less_le_trans [OF pow2_pos assms(1)])
  then have "x \<noteq> 0" by simp
  moreover have "binary_exponent \<bar>x\<bar> = e"
    using assms(1,2) by (rule binary_exponent_unique)
  ultimately show ?thesis
    using round_half_even_near [OF assms(3)] assms(4) by (simp add: fl_def)
qed

text \<open>A number with a significand of at most 53 bits is a binary64 number.\<close>

lemma fl_exact:
  assumes "\<bar>n\<bar> < 2 ^ 53"
  shows "fl (of_int n * pow2 k) = of_int n * pow2 k"
proof (cases "n = 0")
  case True
  then show ?thesis by (simp add: fl_def)
next
  case False
  let ?x = "of_int n * pow2 k :: rat"
  let ?e = "binary_exponent \<bar>?x\<bar>"
  have x0: "?x \<noteq> 0" using False by simp
  then have "0 < \<bar>?x\<bar>" by simp
  note b = binary_exponent_bounds [OF this]
  have "(of_int \<bar>n\<bar> :: rat) < of_int (2 ^ 53)"
    using assms by (simp only: of_int_less_iff)
  then have "\<bar>of_int n :: rat\<bar> < pow2 53"
    by (simp add: pow2_def)
  then have "\<bar>?x\<bar> < pow2 53 * pow2 k"
    by (simp add: abs_mult mult_strict_right_mono)
  with b(1) have "pow2 ?e < pow2 (53 + k)"
    by (simp add: pow2_add)
  then have j: "0 \<le> k - (?e - 52)" by simp
  have "?x / pow2 (?e - 52) = of_int n * pow2 (k - (?e - 52))"
    by (simp add: pow2_diff)
  also have "\<dots> = of_int (n * 2 ^ nat (k - (?e - 52)))"
    using j by (simp add: pow2_nat)
  finally have "round_half_even (?x / pow2 (?e - 52)) = n * 2 ^ nat (k - (?e - 52))"
    by (simp only: round_half_even_of_int)
  then have "fl ?x = of_int (n * 2 ^ nat (k - (?e - 52))) * pow2 (?e - 52)"
    using x0 by (simp add: fl_def)
  also have "\<dots> = of_int n * pow2 (k - (?e - 52)) * pow2 (?e - 52)"
    using j by (simp add: pow2_nat)
  also have "\<dots> = ?x"
    by (simp add: pow2_diff)
  finally show ?thesis .
qed

lemma fl_of_nat: "n < 2 ^ 53 \<Longrightarrow> fl (of_nat n) = of_nat n"
  using fl_exact [of "int n" 0] by (simp add: pow2_def)

lemma fl_0 [simp]: "fl 0 = 0"
  by (simp add: fl_def)

text \<open>The rounding error is at most half a unit in the last place.\<close>

lemma fl_error: "\<bar>fl x - x\<bar> \<le> \<bar>x\<bar> * pow2 (- 53)"
proof (cases "x = 0")
  case True
  then show ?thesis by simp
next
  case False
  let ?e = "binary_exponent \<bar>x\<bar>"
  let ?u = "pow2 (?e - 52)"
  from False have "0 < \<bar>x\<bar>" by simp
  note b = binary_exponent_bounds [OF this]
  have "fl x - x = (of_int (round_half_even (x / ?u)) - x / ?u) * ?u"
    using False by (simp add: fl_def left_diff_distrib)
  then have "\<bar>fl x - x\<bar> = \<bar>of_int (round_half_even (x / ?u)) - x / ?u\<bar> * ?u"
    by (simp only: abs_mult abs_pow2)
  also have "\<dots> \<le> 1 / 2 * ?u"
    using round_half_even_error [of "x / ?u"] by (intro mult_right_mono) simp_all
  also have "\<dots> = pow2 ?e * pow2 (- 53)"
  proof -
    have "?e - 52 = (?e + - 53) + 1" by simp
    then have "?u = pow2 ((?e + - 53) + 1)"
      by (rule arg_cong)
    then have "?u = 2 * (pow2 ?e * pow2 (- 53))"
      by (simp only: pow2_Suc [of "?e + - 53"] pow2_add [of ?e "- 53"])
    then show ?thesis by simp
  qed
  also have "\<dots> \<le> \<bar>x\<bar> * pow2 (- 53)"
    using b(1) by (intro mult_right_mono) simp_all
  finally show ?thesis .
qed

lemma round_half_even_tie:
  "m = of_int k + 1 / 2 \<Longrightarrow> round_half_even m = (if even k then k else k + 1)"
proof -
  assume m: "m = of_int k + 1 / 2"
  then have "\<lfloor>m\<rfloor> = k"
    by (intro floor_unique) simp_all
  with m show ?thesis
    by (simp add: round_half_even_def)
qed

lemma fl_tieI:
  assumes "pow2 e \<le> \<bar>x\<bar>" and "\<bar>x\<bar> < pow2 (e + 1)"
    and "x / pow2 (e - 52) = of_int k + 1 / 2"
    and "y = of_int (if even k then k else k + 1) * pow2 (e - 52)"
  shows "fl x = y"
proof -
  have "0 < \<bar>x\<bar>"
    by (rule less_le_trans [OF pow2_pos assms(1)])
  then have "x \<noteq> 0" by simp
  moreover have "binary_exponent \<bar>x\<bar> = e"
    using assms(1,2) by (rule binary_exponent_unique)
  ultimately show ?thesis
    using round_half_even_tie [OF assms(3)] assms(4) by (simp add: fl_def)
qed

subsection \<open>The roundings that the examples need\<close>

lemma rounding_1: "fl (1 / 10) = 3602879701896397 / 36028797018963968"
  by (rule fl_eqI [where e = "- 4" and n = "7205759403792794"]) (simp_all add: pow2_def)

lemma rounding_2: "fl (3602879701896397 / 18014398509481984) = 3602879701896397 / 18014398509481984"
  by (rule fl_eqI [where e = "- 3" and n = "7205759403792794"]) (simp_all add: pow2_def)

lemma rounding_3: "fl (5404319552844595 / 18014398509481984) = 5404319552844595 / 18014398509481984"
  by (rule fl_eqI [where e = "- 2" and n = "5404319552844595"]) (simp_all add: pow2_def)

lemma rounding_4: "fl (3 / 10) = 5404319552844595 / 18014398509481984"
  by (rule fl_eqI [where e = "- 2" and n = "5404319552844595"]) (simp_all add: pow2_def)

lemma rounding_5: "fl (3602879701896397 / 9007199254740992) = 3602879701896397 / 9007199254740992"
  by (rule fl_eqI [where e = "- 2" and n = "7205759403792794"]) (simp_all add: pow2_def)

lemma rounding_6: "fl (5404319552844595 / 9007199254740992) = 5404319552844595 / 9007199254740992"
  by (rule fl_eqI [where e = "- 1" and n = "5404319552844595"]) (simp_all add: pow2_def)

lemma rounding_7: "fl (3 / 5) = 5404319552844595 / 9007199254740992"
  by (rule fl_eqI [where e = "- 1" and n = "5404319552844595"]) (simp_all add: pow2_def)

lemma rounding_8: "fl (10808639105689191 / 18014398509481984) = 1351079888211149 / 2251799813685248"
  by (rule fl_tieI [where e = "- 1" and k = "5404319552844595"]) (simp_all add: pow2_def)

lemma rounding_9: "fl (16212958658533785 / 18014398509481984) = 2026619832316723 / 2251799813685248"
  by (rule fl_tieI [where e = "- 1" and k = "8106479329266892"]) (simp_all add: pow2_def)

lemma rounding_10: "fl (1) = 1"
  by (rule fl_eqI [where e = "0" and n = "4503599627370496"]) (simp_all add: pow2_def)

lemma rounding_11: "fl (19815838360430181 / 18014398509481984) = 4953959590107545 / 4503599627370496"
  by (rule fl_eqI [where e = "0" and n = "4953959590107545"]) (simp_all add: pow2_def)

lemma rounding_12: "fl (5404319552844595 / 4503599627370496) = 5404319552844595 / 4503599627370496"
  by (rule fl_eqI [where e = "0" and n = "5404319552844595"]) (simp_all add: pow2_def)

lemma rounding_13: "fl (4 / 3) = 6004799503160661 / 4503599627370496"
  by (rule fl_eqI [where e = "0" and n = "6004799503160661"]) (simp_all add: pow2_def)

lemma rounding_14: "fl (16212958658533785 / 9007199254740992) = 2026619832316723 / 1125899906842624"
  by (rule fl_tieI [where e = "0" and k = "8106479329266892"]) (simp_all add: pow2_def)

lemma rounding_15: "fl (2) = 2"
  by (rule fl_eqI [where e = "1" and n = "4503599627370496"]) (simp_all add: pow2_def)

lemma rounding_16: "fl (9457559217478041 / 4503599627370496) = 1182194902184755 / 562949953421312"
  by (rule fl_tieI [where e = "1" and k = "4728779608739020"]) (simp_all add: pow2_def)

lemma rounding_17: "fl (19815838360430181 / 9007199254740992) = 4953959590107545 / 2251799813685248"
  by (rule fl_eqI [where e = "1" and n = "4953959590107545"]) (simp_all add: pow2_def)

lemma rounding_18: "fl (6079859496950169 / 2251799813685248) = 6079859496950169 / 2251799813685248"
  by (rule fl_eqI [where e = "1" and n = "6079859496950169"]) (simp_all add: pow2_def)

lemma rounding_19: "fl (7205759403792793 / 2251799813685248) = 7205759403792793 / 2251799813685248"
  by (rule fl_eqI [where e = "1" and n = "7205759403792793"]) (simp_all add: pow2_def)

lemma rounding_20: "fl (3715469692580659 / 1125899906842624) = 3715469692580659 / 1125899906842624"
  by (rule fl_eqI [where e = "1" and n = "7430939385161318"]) (simp_all add: pow2_def)

lemma rounding_21: "fl (39031196770544299 / 4503599627370496) = 4878899596318037 / 562949953421312"
  by (rule fl_eqI [where e = "3" and n = "4878899596318037"]) (simp_all add: pow2_def)

lemma rounding_22: "fl (10) = 10"
  by (rule fl_eqI [where e = "3" and n = "5629499534213120"]) (simp_all add: pow2_def)

lemma rounding_23: "fl (24769797950537725 / 2251799813685248) = 6192449487634431 / 562949953421312"
  by (rule fl_eqI [where e = "3" and n = "6192449487634431"]) (simp_all add: pow2_def)

lemma rounding_24: "fl (40) = 40"
  by (rule fl_eqI [where e = "5" and n = "5629499534213120"]) (simp_all add: pow2_def)

lemma rounding_25: "fl (23080948090273791 / 562949953421312) = 41"
  by (rule fl_eqI [where e = "5" and n = "5770237022568448"]) (simp_all add: pow2_def)

lemma rounding_26: "fl (27396897733170517 / 562949953421312) = 6849224433292629 / 140737488355328"
  by (rule fl_eqI [where e = "5" and n = "6849224433292629"]) (simp_all add: pow2_def)

lemma rounding_27: "fl (27959847686591829 / 562949953421312) = 6989961921647957 / 140737488355328"
  by (rule fl_eqI [where e = "5" and n = "6989961921647957"]) (simp_all add: pow2_def)

lemmas roundings = rounding_1 rounding_2 rounding_3 rounding_4 rounding_5 rounding_6 rounding_7 rounding_8 rounding_9 rounding_10 rounding_11 rounding_12 rounding_13 rounding_14 rounding_15 rounding_16 rounding_17 rounding_18 rounding_19 rounding_20 rounding_21 rounding_22 rounding_23 rounding_24 rounding_25 rounding_26 rounding_27

section \<open>Words of different lengths\<close>

text \<open>
  C7. When \<open>start\<close> and \<open>end\<close> differ in length, \<open>findPath\<close> and
  \<open>findPathBidirectional\<close> both return the no-path value: they return (no exception, no
  endless loop), and \<open>findPath\<close> leaves the engine, caches included, as it was, so no
  search has taken place.
\<close>

theorem mismatched_lengths_no_path:
  assumes "length start \<noteq> length end"
  shows "findPath st start end useHeuristic = Some (None, st)
       \<and> findPathBidirectional st start end = Some None"
  using assms by (simp add: findPath_def findPathBidirectional_def)

theorem mismatched_lengths_no_path_witness:
  "length ''cat'' \<noteq> length ''house''
   \<and> findPath new_engine ''cat'' ''house'' True = Some (None, new_engine)
   \<and> findPathBidirectional new_engine ''cat'' ''house'' = Some None"
  using mismatched_lengths_no_path [of "''cat''" "''house''" new_engine True] by simp


section \<open>Loading a dictionary without valid words\<close>

lemma initialize_depends_on_processedWords:
  "processedWords ls = processedWords ls' \<Longrightarrow> initialize st ls = initialize st ls'"
  by (simp add: initialize_def)

lemma processedWords_none:
  "(\<forall>line \<in> set ls. \<not> is_word (process_line line)) \<Longrightarrow> processedWords ls = []"
  by (induction ls) (simp_all add: processedWords_def)

text \<open>
  C9, as the code has it. When no line of the dictionary text yields a valid word,
  \<open>loadWordList\<close> ends exactly as it does for a dictionary without any word: the engine is
  initialised from the empty word list (its word set is empty, and the graph of a new
  engine stays empty), the game is marked as initialised, and no error is shown. The same
  holds of the flag and the error for every text that is read, whatever its lines. A
  rejected fetch or read is what \<open>loadWordList\<close> reports: it shows the error message and
  leaves the engine and the flag as they were.
\<close>

theorem malformed_dictionary_loads_as_empty:
  assumes "\<forall>line \<in> set (split_on (CHR 0x0A) text). \<not> is_word (process_line line)"
  shows "loadWordList gm (Some text)
           = gm\<lparr> algorithm := initialize (algorithm gm) [], isInitialized := True \<rparr>
       \<and> errorMessage (loadWordList gm (Some text)) = errorMessage gm
       \<and> wordSet (algorithm (loadWordList gm (Some text))) = []
       \<and> (algorithm gm = new_engine \<longrightarrow>
            wordGraph (algorithm (loadWordList gm (Some text))) = [])
       \<and> (\<forall>other. errorMessage (loadWordList gm (Some other)) = errorMessage gm
                  \<and> isInitialized (loadWordList gm (Some other)))
       \<and> loadWordList gm None
           = gm\<lparr> errorMessage := Some ''Failed to load word list. Please refresh the page.'' \<rparr>"
proof -
  let ?ls = "filter (\<lambda>line. trim line \<noteq> []) (split_on (CHR 0x0A) text)"
  from assms have "\<forall>line \<in> set ?ls. \<not> is_word (process_line line)"
    by simp
  then have "processedWords ?ls = processedWords []"
    by (simp add: processedWords_none processedWords_def)
  then have i: "initialize (algorithm gm) ?ls = initialize (algorithm gm) []"
    by (rule initialize_depends_on_processedWords)
  have l: "loadWordList gm (Some text)
           = gm\<lparr> algorithm := initialize (algorithm gm) [], isInitialized := True \<rparr>"
    by (simp add: loadWordList_def i)
  have e: "initialize new_engine [] = new_engine"
    by (simp add: initialize_def processedWords_def set_of_array_def buildWordGraph_def
        new_engine_def)
  have "wordSet (initialize (algorithm gm) []) = []"
    by (simp add: initialize_def processedWords_def set_of_array_def buildWordGraph_def)
  moreover have "algorithm gm = new_engine \<longrightarrow> wordGraph (initialize (algorithm gm) []) = []"
    by (simp add: e) (simp add: new_engine_def)
  moreover have "\<forall>other. errorMessage (loadWordList gm (Some other)) = errorMessage gm
                  \<and> isInitialized (loadWordList gm (Some other))"
    by (simp add: loadWordList_def)
  moreover have "loadWordList gm None
           = gm\<lparr> errorMessage := Some ''Failed to load word list. Please refresh the page.'' \<rparr>"
    by (simp add: loadWordList_def)
  ultimately show ?thesis
    by (simp add: l)
qed

theorem malformed_dictionary_loads_as_empty_witness:
  "loadWordList new_game (Some ''123 ?!'')
        = new_game\<lparr> algorithm := initialize (algorithm new_game) [], isInitialized := True \<rparr>
   \<and> errorMessage (loadWordList new_game (Some ''123 ?!'')) = None
   \<and> wordSet (algorithm (loadWordList new_game (Some ''123 ?!''))) = []
   \<and> wordGraph (algorithm (loadWordList new_game (Some ''123 ?!''))) = []
   \<and> errorMessage (loadWordList new_game None)
        = Some ''Failed to load word list. Please refresh the page.''
   \<and> \<not> isInitialized (loadWordList new_game None)"
proof -
  have h: "\<forall>line \<in> set (split_on (CHR 0x0A) ''123 ?!''). \<not> is_word (process_line line)"
    by (simp add: is_word_def process_line_def trim_def is_space_def toLowerCase_def
        lower_char_def is_lower_def)
  have n: "algorithm new_game = new_engine" "errorMessage new_game = None"
    "\<not> isInitialized new_game"
    by (simp_all add: new_game_def)
  note t = malformed_dictionary_loads_as_empty [OF h, of new_game]
  from t have a: "loadWordList new_game (Some ''123 ?!'')
        = new_game\<lparr> algorithm := initialize (algorithm new_game) [], isInitialized := True \<rparr>"
    by (rule conjunct1)
  from t have "errorMessage (loadWordList new_game (Some ''123 ?!'')) = errorMessage new_game"
    by blast
  with n(2) have b: "errorMessage (loadWordList new_game (Some ''123 ?!'')) = None"
    by simp
  from t have c: "wordSet (algorithm (loadWordList new_game (Some ''123 ?!''))) = []"
    by blast
  from t n(1) have d: "wordGraph (algorithm (loadWordList new_game (Some ''123 ?!''))) = []"
    by blast
  from t have "loadWordList new_game None
           = new_game\<lparr> errorMessage := Some ''Failed to load word list. Please refresh the page.'' \<rparr>"
    by blast
  with n(3) have e: "errorMessage (loadWordList new_game None)
        = Some ''Failed to load word list. Please refresh the page.''"
    and f: "\<not> isInitialized (loadWordList new_game None)"
    by simp_all
  from a b c d e f show ?thesis
    by blast
qed

text \<open>
  The claim as stated fails: a dictionary source whose only lines are \<open>123\<close> and \<open>?!\<close> is
  loaded without any error, the game is marked as initialised, and the result is the same
  game, with the same empty graph, as for an empty dictionary.
\<close>

theorem malformed_dictionary_counterexample:
  "loadWordList new_game (Some (''123'' @ [CHR 0x0A] @ ''?!'')) = loadWordList new_game (Some [])
   \<and> isInitialized (loadWordList new_game (Some (''123'' @ [CHR 0x0A] @ ''?!'')))
   \<and> errorMessage (loadWordList new_game (Some (''123'' @ [CHR 0x0A] @ ''?!''))) = None
   \<and> wordGraph (algorithm (loadWordList new_game (Some (''123'' @ [CHR 0x0A] @ ''?!'')))) = []"
  by (simp add: loadWordList_def new_game_def new_engine_def initialize_def processedWords_def
      is_word_def process_line_def trim_def is_space_def toLowerCase_def lower_char_def
      is_lower_def set_of_array_def buildWordGraph_def)


section \<open>The dispatch on the difficulty\<close>

lemma own_strategy_Some_iff:
  "own_strategy d \<noteq> None \<longleftrightarrow> d \<in> {''easy'', ''medium'', ''hard'', ''expert''}"
  by (simp add: own_strategy_def)

text \<open>
  C10, as the code has it. For a difficulty that is none of the four lower-case names and
  none of the function names that every object inherits, \<open>selectAIMove\<close> throws a
  \<open>TypeError\<close> and changes nothing; capitalised spellings such as \<open>Easy\<close> are among these.
  For the inherited function names the lookup finds a function, and the call returns a
  value that is not a move, without a \<open>TypeError\<close>.
\<close>

theorem selectAIMove_dispatch:
  "(difficulty \<notin> {''easy'', ''medium'', ''hard'', ''expert''} \<and>
    difficulty \<notin> {''toString'', ''toLocaleString'', ''valueOf'', ''constructor'',
       ''hasOwnProperty'', ''propertyIsEnumerable'', ''isPrototypeOf'',
       ''__lookupGetter__'', ''__lookupSetter__''} \<longrightarrow>
      selectAIMove st rs currentWord targetWord difficulty playerLadder
        = Some (TypeError, st, rs))
   \<and> (difficulty \<in> {''toString'', ''toLocaleString'', ''valueOf'', ''constructor'',
       ''hasOwnProperty'', ''propertyIsEnumerable'', ''isPrototypeOf'',
       ''__lookupGetter__'', ''__lookupSetter__''} \<longrightarrow>
        (\<exists>v. selectAIMove st rs currentWord targetWord difficulty playerLadder
               = Some (Other v, st, rs)))"
proof (intro conjI impI)
  assume "difficulty \<notin> {''easy'', ''medium'', ''hard'', ''expert''} \<and>
    difficulty \<notin> {''toString'', ''toLocaleString'', ''valueOf'', ''constructor'',
       ''hasOwnProperty'', ''propertyIsEnumerable'', ''isPrototypeOf'',
       ''__lookupGetter__'', ''__lookupSetter__''}"
  then show "selectAIMove st rs currentWord targetWord difficulty playerLadder
           = Some (TypeError, st, rs)"
    by (simp add: selectAIMove_def own_strategy_def inherited_call_def)
next
  assume "difficulty \<in> {''toString'', ''toLocaleString'', ''valueOf'', ''constructor'',
       ''hasOwnProperty'', ''propertyIsEnumerable'', ''isPrototypeOf'',
       ''__lookupGetter__'', ''__lookupSetter__''}"
  then have "own_strategy difficulty = None
      \<and> (\<exists>v. inherited_call difficulty currentWord = Other v)"
    by (auto simp: own_strategy_def inherited_call_def)
  then show "\<exists>v. selectAIMove st rs currentWord targetWord difficulty playerLadder
               = Some (Other v, st, rs)"
    by (auto simp: selectAIMove_def)
qed

theorem selectAIMove_dispatch_witness:
  "selectAIMove (initialize new_engine [''cat'', ''cot'', ''cog'']) (\<lambda>_. Abs_draw 0, 0)
       ''cat'' ''cog'' ''Easy'' []
       = Some (TypeError, initialize new_engine [''cat'', ''cot'', ''cog''], (\<lambda>_. Abs_draw 0, 0))
   \<and> (\<exists>v. selectAIMove (initialize new_engine [''cat'', ''cot'', ''cog'']) (\<lambda>_. Abs_draw 0, 0)
              ''cat'' ''cog'' ''valueOf'' []
            = Some (Other v, initialize new_engine [''cat'', ''cot'', ''cog''],
                    (\<lambda>_. Abs_draw 0, 0)))"
  using selectAIMove_dispatch
         [of "''Easy''" "initialize new_engine [''cat'', ''cot'', ''cog'']"
            "(\<lambda>_. Abs_draw 0, 0)" "''cat''" "''cog''" "[]"]
    selectAIMove_dispatch
         [of "''valueOf''" "initialize new_engine [''cat'', ''cot'', ''cog'']"
            "(\<lambda>_. Abs_draw 0, 0)" "''cat''" "''cog''" "[]"]
  by simp

text \<open>
  The claim as stated fails for the names that every object inherits: with the difficulty
  \<open>toString\<close> the lookup finds the inherited function, the call returns the string
  \<open>[object Object]\<close>, and no \<open>TypeError\<close> is thrown.
\<close>

theorem selectAIMove_inherited_counterexample:
  "own_strategy ''toString'' = None
   \<and> selectAIMove new_engine (\<lambda>_. Abs_draw 0, 0) ''cat'' ''dog'' ''toString'' []
       = Some (Other (StringValue ''[object Object]''), new_engine, (\<lambda>_. Abs_draw 0, 0))"
  by (simp add: selectAIMove_def own_strategy_def inherited_call_def)


section \<open>The heuristic estimate\<close>

subsection \<open>The matrix computes the edit distance\<close>

lemma ed_Nil2 [simp]: "ed xs [] = length xs"
  by (cases xs) simp_all

lemma ed_sym: "ed xs ys = ed ys xs"
  by (induction xs ys rule: ed.induct) (simp_all add: min.commute min.left_commute)

lemma erow_not_Nil [simp]: "erow u acc rest \<noteq> []"
  by (cases rest) simp_all

lemma hd_erow [simp]: "hd (erow u acc rest) = ed u acc"
  by (cases rest) simp_all

lemma last_erow: "last (erow u acc rest) = ed u (rev rest @ acc)"
  by (induction rest arbitrary: acc) simp_all

lemma erow_Nil: "erow [] acc rest = [length acc..<Suc (length acc + length rest)]"
proof (induction rest arbitrary: acc)
  case Nil
  show ?case by simp
next
  case (Cons a rest)
  have "[length acc..<Suc (length acc + length (a # rest))]
        = length acc # [Suc (length acc)..<Suc (length acc + length (a # rest))]"
    by (rule upt_conv_Cons) simp
  with Cons [of "a # acc"] show ?case by (simp del: upt_Suc)
qed

lemma lev_cells_erow:
  "row \<noteq> [] \<Longrightarrow> last row = ed (c # u) acc \<Longrightarrow>
   lev_cells c rest (erow u acc rest) row = butlast row @ erow (c # u) acc rest"
proof (induction rest arbitrary: acc row)
  case Nil
  then have "butlast row @ [ed (c # u) acc] = row"
    by (metis append_butlast_last_id)
  then show ?case by simp
next
  case (Cons a rest)
  obtain up upper where e: "erow u (a # acc) rest = up # upper" "up = ed u (a # acc)"
    by (cases "erow u (a # acc) rest") (use hd_erow [of u "a # acc" rest] in auto)
  have cell: "lev_cell c a (ed u acc) (last row) up = ed (c # u) (a # acc)"
    using Cons.prems e by (simp add: lev_cell_def)
  have "lev_cells c (a # rest) (erow u acc (a # rest)) row
        = lev_cells c rest (erow u (a # acc) rest) (row @ [ed (c # u) (a # acc)])"
    using e cell by simp
  also have "\<dots> = butlast (row @ [ed (c # u) (a # acc)]) @ erow (c # u) (a # acc) rest"
    by (rule Cons.IH) simp_all
  also have "\<dots> = row @ erow (c # u) (a # acc) rest"
    by simp
  also have "\<dots> = (butlast row @ [ed (c # u) acc]) @ erow (c # u) (a # acc) rest"
    using Cons.prems by (metis append_butlast_last_id)
  also have "\<dots> = butlast row @ erow (c # u) acc (a # rest)"
    by simp
  finally show ?case .
qed

lemma lev_rows_erow:
  "lev_rows word1 cs (erow u [] word1) (Suc (length u)) = erow (rev cs @ u) [] word1"
proof (induction cs arbitrary: u)
  case Nil
  show ?case by simp
next
  case (Cons c cs)
  have "lev_cells c word1 (erow u [] word1) [Suc (length u)] = erow (c # u) [] word1"
    using lev_cells_erow [of "[Suc (length u)]" c u "[]" word1] by simp
  with Cons [of "c # u"] show ?case by simp
qed

lemma calculateLevenshtein_ed: "calculateLevenshtein word1 word2 = ed (rev word2) (rev word1)"
proof -
  have "[0..<Suc (length word1)] = erow [] [] word1"
    by (simp add: erow_Nil)
  then have "lev_rows word1 word2 [0..<Suc (length word1)] 1 = erow (rev word2) [] word1"
    using lev_rows_erow [of word1 word2 "[]"] by simp
  then show ?thesis
    by (simp add: calculateLevenshtein_def last_erow)
qed

lemma calculateLevenshtein_sym: "calculateLevenshtein a b = calculateLevenshtein b a"
  by (simp add: calculateLevenshtein_ed ed_sym)

lemma hamming_sym: "length a = length b \<Longrightarrow> hamming a b = hamming b a"
  by (induction a b rule: list_induct2) auto

lemma set_add_set [simp]: "set (set_add xs x) = insert x (set xs)"
  by (auto simp: set_add_def)

lemma set_add_distinct [simp]: "distinct (set_add xs x) = distinct xs"
  by (auto simp: set_add_def)

lemma foldl_set_add: "set (foldl set_add acc xs) = set acc \<union> set xs \<and> (distinct acc \<longrightarrow> distinct (foldl set_add acc xs))"
  by (induction xs arbitrary: acc) auto

lemma set_of_array_set [simp]: "set (set_of_array xs) = set xs"
  by (simp add: set_of_array_def foldl_set_add)

lemma set_of_array_distinct [simp]: "distinct (set_of_array xs)"
  by (simp add: set_of_array_def foldl_set_add)

lemma foldl_plus: "foldl (\<lambda>d c. d + g c) a xs = a + sum_list (map g xs)"
  by (induction xs arbitrary: a) (simp_all add: add.assoc)

lemma cfd_sum:
  "calculateCharFrequencyDifference a b
   = (\<Sum>c \<in> set a \<union> set b. abs_diff (freq_table a c) (freq_table b c))"
  by (simp add: calculateCharFrequencyDifference_def foldl_plus sum_list_distinct_conv_sum_set)

lemma cfd_sym: "calculateCharFrequencyDifference a b = calculateCharFrequencyDifference b a"
  by (simp add: cfd_sum Un_commute abs_diff_def) (rule sum.cong, auto)

lemma heuristicValue_sym: "length a = length b \<Longrightarrow> heuristicValue a b = heuristicValue b a"
  using calculateLevenshtein_sym [of a b] cfd_sym [of a b]
  by (simp add: heuristicValue_def hamming_sym)


subsection \<open>The three distances\<close>

lemma edits_Nil1: "edits [] ys (length ys)"
  by (induction ys) (auto intro: edits.intros)

lemma edits_Nil2: "edits xs [] (length xs)"
  by (induction xs) (auto intro: edits.intros)

lemma edits_ed: "edits xs ys (ed xs ys)"
proof (induction xs ys rule: ed.induct)
  case (1 ys)
  show ?case by (simp add: edits_Nil1)
next
  case (2 x xs)
  show ?case using edits_Nil2 [of "x # xs"] by simp
next
  case (3 x xs y ys)
  show ?case
  proof (cases "x = y")
    case True
    with 3 show ?thesis by (auto intro: edits.keep)
  next
    case False
    let ?m = "min (ed xs ys + 1) (min (ed (x # xs) ys + 1) (ed xs (y # ys) + 1))"
    have "?m = Suc (ed xs ys) \<or> ?m = Suc (ed (x # xs) ys) \<or> ?m = Suc (ed xs (y # ys))"
      by (auto simp: min_def)
    with 3 False show ?thesis
      by (auto intro: edits.substitution edits.insertion edits.deletion)
  qed
qed

text \<open>Removing the first element of one list changes the distance by at most one.\<close>

lemma ed_Cons_bounds:
  "length xs + length ys \<le> n \<Longrightarrow>
   ed (x # xs) ys \<le> Suc (ed xs ys) \<and> ed xs ys \<le> Suc (ed (x # xs) ys)"
proof (induction n arbitrary: xs ys x)
  case 0
  then show ?case by simp
next
  case (Suc n)
  show ?case
  proof (cases ys)
    case Nil
    then show ?thesis by simp
  next
    case (Cons y ys')
    have len: "length xs + length ys' \<le> n"
      using Suc.prems Cons by simp
    have len': "length ys' + length xs \<le> n"
      using len by simp
    have B: "ed xs (y # ys') \<le> Suc (ed xs ys')"
      using Suc.IH [OF len', of y] ed_sym [of "y # ys'" xs] ed_sym [of ys' xs] by simp
    have D: "ed xs ys' \<le> Suc (ed xs (y # ys'))"
      using Suc.IH [OF len', of y] ed_sym [of "y # ys'" xs] ed_sym [of ys' xs] by simp
    have C: "ed xs ys' \<le> Suc (ed (x # xs) ys')"
      using Suc.IH [OF len, of x] by simp
    show ?thesis
    proof (cases "x = y")
      case True
      with B D Cons show ?thesis by simp
    next
      case False
      with B C Cons show ?thesis by (simp add: min_def)
    qed
  qed
qed

lemma ed_Cons1: "ed (x # xs) ys \<le> Suc (ed xs ys)"
  using ed_Cons_bounds [of xs ys "length xs + length ys" x] by simp

lemma ed_Cons2: "ed xs (y # ys) \<le> Suc (ed xs ys)"
  using ed_Cons1 [of y ys xs] ed_sym [of "y # ys" xs] ed_sym [of ys xs] by simp

text \<open>The recurrence computes the least number of edits.\<close>

lemma ed_least: "edits xs ys n \<Longrightarrow> ed xs ys \<le> n"
proof (induction rule: edits.induct)
  case empty
  show ?case by simp
next
  case (keep xs ys n x)
  then show ?case by simp
next
  case (substitution xs ys n x y)
  then show ?case by (simp add: min_def)
next
  case (deletion xs ys n x)
  with ed_Cons1 [of x xs ys] show ?case by simp
next
  case (insertion xs ys n y)
  with ed_Cons2 [of xs y ys] show ?case by simp
qed

lemma edits_snoc_keep: "edits xs ys n \<Longrightarrow> edits (xs @ [x]) (ys @ [x]) n"
  by (induction rule: edits.induct) (auto intro: edits.intros)

lemma edits_snoc_substitute: "edits xs ys n \<Longrightarrow> edits (xs @ [x]) (ys @ [y]) (Suc n)"
  by (induction rule: edits.induct) (auto intro: edits.intros)

lemma edits_snoc_delete: "edits xs ys n \<Longrightarrow> edits (xs @ [x]) ys (Suc n)"
  by (induction rule: edits.induct) (auto intro: edits.intros)

lemma edits_snoc_insert: "edits xs ys n \<Longrightarrow> edits xs (ys @ [y]) (Suc n)"
  by (induction rule: edits.induct) (auto intro: edits.intros)

lemma edits_rev: "edits xs ys n \<Longrightarrow> edits (rev xs) (rev ys) n"
  by (induction rule: edits.induct)
    (auto intro: edits.empty edits_snoc_keep edits_snoc_substitute edits_snoc_delete
      edits_snoc_insert)

lemma ed_rev_le: "ed (rev xs) (rev ys) \<le> ed xs ys"
  by (rule ed_least [OF edits_rev [OF edits_ed]])

lemma ed_rev: "ed (rev xs) (rev ys) = ed xs ys"
  using ed_rev_le [of xs ys] ed_rev_le [of "rev xs" "rev ys"] by simp

lemma calculateLevenshtein_distance: "calculateLevenshtein a b = ed a b"
  by (simp add: calculateLevenshtein_ed ed_rev ed_sym)

lemma hamming_differing:
  "length a = length b \<Longrightarrow> hamming a b = differing_positions a b"
  by (induction a b rule: list_induct2) (simp_all add: differing_positions_def)

lemma foldl_freq:
  "foldl (\<lambda>f c. f(c := Suc (f c))) f w c = f c + count_list w c"
  by (induction w arbitrary: f) simp_all

lemma freq_table_count: "freq_table w c = count_list w c"
  by (simp add: freq_table_def foldl_freq)

lemma cfd_frequency_difference:
  "calculateCharFrequencyDifference a b = frequency_difference a b"
  unfolding cfd_sum frequency_difference_def
  by (rule sum.cong) (auto simp: abs_diff_def freq_table_count)

lemma ed_Least: "ed xs ys = (LEAST n. edits xs ys n)"
  by (rule Least_equality [symmetric]) (simp_all add: edits_ed ed_least)


subsection \<open>The cache keeps the estimates of words apart\<close>

lemma is_word_no_dash: "is_word a \<Longrightarrow> CHR ''-'' \<notin> set a"
  by (auto simp: is_word_def list_all_iff is_lower_def)

lemma split_at_first:
  "x \<notin> set a \<Longrightarrow> x \<notin> set a' \<Longrightarrow> a @ x # b = a' @ x # b' \<longleftrightarrow> a = a' \<and> b = b'"
proof (induction a arbitrary: a')
  case Nil
  then show ?case by (cases a') auto
next
  case (Cons c a)
  then show ?case by (cases a') auto
qed

lemma cache_key_inj:
  "CHR ''-'' \<notin> set a \<Longrightarrow> CHR ''-'' \<notin> set a' \<Longrightarrow>
   cache_key a b = cache_key a' b' \<longleftrightarrow> a = a' \<and> b = b'"
  by (simp add: cache_key_def split_at_first)

lemma words_cached_consistent:
  "words_cached st \<Longrightarrow> is_word a \<Longrightarrow> is_word b \<Longrightarrow>
   heuristicCache st (cache_key a b) = Some v \<Longrightarrow> v = heuristicValue a b"
proof (induction arbitrary: a b v rule: words_cached.induct)
  case (fresh st)
  then show ?case by simp
next
  case (query st x y)
  show ?case
  proof (cases "heuristicCache st (cache_key x y)")
    case None
    with query.prems query.hyps query.IH [of a b v] show ?thesis
      by (auto simp: heuristic_def cache_key_inj is_word_no_dash split: if_splits)
  next
    case (Some u)
    with query.prems query.IH [of a b v] show ?thesis
      by (simp add: heuristic_def)
  qed
qed

text \<open>
  C6. For two words of equal length, and whatever queries on words have filled the cache
  before, in whatever order, the estimate is the same for both orders of the pair and is
  the weighted sum \<open>0.6 * hamming + 0.3 * levenshtein + 0.1 * charFreqDiff\<close>, in the
  arithmetic of JavaScript numbers (each product and each sum rounded), of the number of
  positions at which the words differ, of their edit distance and of the difference of
  their character counts; the engine after the query is again one whose cache comes from
  queries on words, so the same holds for every later query.
\<close>

theorem heuristic_symmetric:
  assumes "words_cached st" and "is_word a" and "is_word b" and "length a = length b"
  shows "fst (heuristic st a b) = fst (heuristic st b a)
       \<and> fst (heuristic st a b)
           = fl (fl (fl (of_nat (differing_positions a b) * fl (6 / 10))
                     + fl (of_nat (ed a b) * fl (3 / 10)))
                 + fl (of_nat (frequency_difference a b) * fl (1 / 10)))
       \<and> words_cached (snd (heuristic st a b))"
proof -
  have ab: "fst (heuristic st a b) = heuristicValue a b"
    using words_cached_consistent [OF assms(1-3)]
    by (auto simp: heuristic_def split: option.splits)
  have ba: "fst (heuristic st b a) = heuristicValue b a"
    using words_cached_consistent [OF assms(1) assms(3) assms(2)]
    by (auto simp: heuristic_def split: option.splits)
  have v: "heuristicValue a b
           = fl (fl (fl (of_nat (differing_positions a b) * fl (6 / 10))
                     + fl (of_nat (ed a b) * fl (3 / 10)))
                 + fl (of_nat (frequency_difference a b) * fl (1 / 10)))"
    by (simp only: heuristicValue_def hamming_differing [OF assms(4)]
        calculateLevenshtein_distance cfd_frequency_difference)
  from ab ba heuristicValue_sym [OF assms(4)] words_cached.query [OF assms(1-3)] v
  show ?thesis
    by simp
qed

theorem heuristic_symmetric_witness:
  "words_cached (snd (heuristic new_engine ''dog'' ''cat''))
   \<and> is_word ''cat'' \<and> is_word ''cog'' \<and> length ''cat'' = length ''cog''
   \<and> fst (heuristic (snd (heuristic new_engine ''dog'' ''cat'')) ''cat'' ''cog'')
       = fst (heuristic (snd (heuristic new_engine ''dog'' ''cat'')) ''cog'' ''cat'')
   \<and> fst (heuristic (snd (heuristic new_engine ''dog'' ''cat'')) ''cat'' ''cog'')
       = 4953959590107545 / 2251799813685248"
proof -
  have w: "is_word ''cat''" "is_word ''cog''" "is_word ''dog''"
    by (simp_all add: is_word_def is_lower_def)
  have c: "words_cached (snd (heuristic new_engine ''dog'' ''cat''))"
    by (rule words_cached.query [OF words_cached.fresh w(3) w(1)]) (simp add: new_engine_def)
  have d: "differing_positions ''cat'' ''cog'' = 2" "ed ''cat'' ''cog'' = 2"
    "frequency_difference ''cat'' ''cog'' = 4"
    by code_simp+
  have v: "fl (fl (fl (of_nat (differing_positions ''cat'' ''cog'') * fl (6 / 10))
                     + fl (of_nat (ed ''cat'' ''cog'') * fl (3 / 10)))
                 + fl (of_nat (frequency_difference ''cat'' ''cog'') * fl (1 / 10)))
           = 4953959590107545 / 2251799813685248"
    by (simp add: d roundings)
  from heuristic_symmetric [OF c w(1) w(2)] c w v show ?thesis
    by simp
qed

section \<open>The word graph\<close>

subsection \<open>Neighbour sets under the graph updates\<close>

lemma neighbors_content: "neighbors g w = content g w"
  by (simp add: neighbors_def content_def)

lemma map_has_graph_ensure [simp]: "map_has (graph_ensure g w) x \<longleftrightarrow> map_has g x \<or> x = w"
  by (auto simp: graph_ensure_def map_has_def map_add_def split: option.splits)

lemma neighbors_graph_ensure [simp]: "neighbors (graph_ensure g w) x = neighbors g x"
  by (cases "map_of g x")
    (simp_all add: graph_ensure_def map_has_def neighbors_def map_add_def)

lemma map_of_graph_add:
  "map_of (graph_add g w v) x
   = (if x = w then map_option (\<lambda>s. set_add s v) (map_of g x) else map_of g x)"
  by (induction g) (auto simp: graph_add_def)

lemma map_has_graph_add [simp]: "map_has (graph_add g w v) x \<longleftrightarrow> map_has g x"
  by (auto simp: map_has_def map_of_graph_add)

lemma neighbors_graph_add:
  "neighbors (graph_add g w v) x
   = (if x = w \<and> map_has g w then set_add (neighbors g x) v else neighbors g x)"
  by (auto simp: neighbors_def map_of_graph_add map_has_def split: option.splits)

lemma set_neighbors_graph_add:
  "set (neighbors (graph_add g w v) x)
   = (if x = w \<and> map_has g w then insert v (set (neighbors g x)) else set (neighbors g x))"
  by (simp add: neighbors_graph_add)

lemma set_neighbors_connect:
  "set (neighbors (connect g a b) x)
   = set (neighbors g x) \<union> (if x = a then {b} else {}) \<union> (if x = b then {a} else {})"
  by (auto simp: connect_def set_neighbors_graph_add)

lemma set_neighbors_connect_all:
  "set (neighbors (foldl (\<lambda>g' word2. connect g' a word2) g rest) x)
   = set (neighbors g x) \<union> (if x = a then set rest else {}) \<union> (if x \<in> set rest then {a} else {})"
  by (induction rest arbitrary: g) (auto simp: set_neighbors_connect)

lemma set_neighbors_connect_pairs:
  "distinct ws \<Longrightarrow>
   set (neighbors (connect_pairs g ws) x)
   = set (neighbors g x) \<union> (if x \<in> set ws then set ws - {x} else {})"
  by (induction ws arbitrary: g) (auto simp: set_neighbors_connect_all)

lemma set_neighbors_connect_buckets:
  "\<forall>b \<in> set bs. distinct (snd b) \<Longrightarrow>
   set (neighbors (connect_buckets g bs) x)
   = set (neighbors g x) \<union> {y. \<exists>b \<in> set bs. x \<in> set (snd b) \<and> y \<in> set (snd b) \<and> y \<noteq> x}"
  unfolding connect_buckets_def
proof (induction bs arbitrary: g)
  case Nil
  show ?case by simp
next
  case (Cons b bs)
  then have d: "distinct (snd b)" and ds: "\<forall>b \<in> set bs. distinct (snd b)"
    by simp_all
  show ?case
    by (simp add: Cons.IH [OF ds] set_neighbors_connect_pairs [OF d]) blast
qed


subsection \<open>The buckets\<close>

lemma content_bucket_push:
  "content (bucket_push b p w) q = (if q = p then content b p @ [w] else content b q)"
  by (induction b p w rule: bucket_push.induct) (auto simp: content_def)

lemma keys_bucket_push: "fst ` set (bucket_push b p w) = insert p (fst ` set b)"
  by (induction b p w rule: bucket_push.induct) auto

lemma distinct_keys_bucket_push:
  "distinct (map fst b) \<Longrightarrow> distinct (map fst (bucket_push b p w))"
proof (induction b p w rule: bucket_push.induct)
  case (1 p w)
  show ?case by simp
next
  case (2 q ws bs p w)
  then show ?case
    using keys_bucket_push [of bs p w] by (auto simp: image_iff)
qed

lemma content_foldl_push:
  "content (foldl (\<lambda>b e. bucket_push b (fst e) (snd e)) b L) q
   = content b q @ map snd (filter (\<lambda>e. fst e = q) L)"
  by (induction L arbitrary: b) (simp_all add: content_bucket_push)

lemma distinct_keys_foldl_push:
  "distinct (map fst b) \<Longrightarrow>
   distinct (map fst (foldl (\<lambda>b e. bucket_push b (fst e) (snd e)) b L))"
  by (induction L arbitrary: b) (simp_all add: distinct_keys_bucket_push)

lemma add_word_patterns_pushes:
  "add_word_patterns b w
   = foldl (\<lambda>b e. bucket_push b (fst e) (snd e)) b (map (\<lambda>i. (pattern w i, w)) [0..<length w])"
  by (simp add: add_word_patterns_def foldl_map)

lemma foldl_add_word_patterns:
  "foldl add_word_patterns b ws = foldl (\<lambda>b e. bucket_push b (fst e) (snd e)) b (pushes ws)"
  by (induction ws arbitrary: b) (simp_all add: pushes_def add_word_patterns_pushes)

lemma content_make_buckets:
  "content (make_buckets ws) q = map snd (filter (\<lambda>e. fst e = q) (pushes ws))"
proof -
  have "content (foldl (\<lambda>b e. bucket_push b (fst e) (snd e)) [] (pushes ws)) q
        = content [] q @ map snd (filter (\<lambda>e. fst e = q) (pushes ws))"
    by (rule content_foldl_push)
  moreover have "content ([] :: (string \<times> string list) list) q = []"
    by (simp add: content_def)
  ultimately show ?thesis
    by (simp add: make_buckets_def foldl_add_word_patterns)
qed

lemma distinct_keys_make_buckets: "distinct (map fst (make_buckets ws))"
  by (simp add: make_buckets_def foldl_add_word_patterns distinct_keys_foldl_push)

lemma entry_content:
  "distinct (map fst m) \<Longrightarrow> (q, l) \<in> set m \<Longrightarrow> content m q = l"
  by (simp add: content_def)

lemma content_entry:
  assumes "x \<in> set (content m q)"
  shows "(q, content m q) \<in> set m"
proof (cases "map_of m q")
  case None
  with assms show ?thesis
    by (simp add: content_def)
next
  case (Some l)
  then have "content m q = l" "(q, l) \<in> set m"
    by (simp_all add: content_def map_of_SomeD)
  then show ?thesis by simp
qed

lemma in_pushes:
  "(q, x) \<in> set (pushes ws) \<longleftrightarrow> x \<in> set ws \<and> (\<exists>i<length x. q = pattern x i)"
proof
  assume "(q, x) \<in> set (pushes ws)"
  then show "x \<in> set ws \<and> (\<exists>i<length x. q = pattern x i)"
    by (auto simp: pushes_def)
next
  assume "x \<in> set ws \<and> (\<exists>i<length x. q = pattern x i)"
  then obtain i where "x \<in> set ws" "i < length x" "q = pattern x i"
    by auto
  then have a: "(q, x) \<in> set (map (\<lambda>i. (pattern x i, x)) [0..<length x])"
    by simp
  have b: "map (\<lambda>i. (pattern x i, x)) [0..<length x]
           \<in> set (map (\<lambda>w. map (\<lambda>i. (pattern w i, w)) [0..<length w]) ws)"
    unfolding set_map using \<open>x \<in> set ws\<close> by (rule imageI)
  show "(q, x) \<in> set (pushes ws)"
    unfolding pushes_def set_concat using b a by (rule UN_I)
qed

lemma bucket_members:
  "(\<exists>b \<in> set (make_buckets ws). x \<in> set (snd b) \<and> y \<in> set (snd b))
   \<longleftrightarrow> (\<exists>q. (q, x) \<in> set (pushes ws) \<and> (q, y) \<in> set (pushes ws))"
proof
  assume "\<exists>b \<in> set (make_buckets ws). x \<in> set (snd b) \<and> y \<in> set (snd b)"
  then obtain q l where b: "(q, l) \<in> set (make_buckets ws)" "x \<in> set l" "y \<in> set l"
    by auto
  then have "content (make_buckets ws) q = l"
    by (simp add: entry_content distinct_keys_make_buckets)
  with b have "(q, x) \<in> set (pushes ws)" "(q, y) \<in> set (pushes ws)"
    by (auto simp: content_make_buckets)
  then show "\<exists>q. (q, x) \<in> set (pushes ws) \<and> (q, y) \<in> set (pushes ws)"
    by blast
next
  assume "\<exists>q. (q, x) \<in> set (pushes ws) \<and> (q, y) \<in> set (pushes ws)"
  then obtain q where q: "(q, x) \<in> set (pushes ws)" "(q, y) \<in> set (pushes ws)"
    by auto
  have mem: "z \<in> set (content (make_buckets ws) q)" if "(q, z) \<in> set (pushes ws)" for z
  proof -
    from that have "(q, z) \<in> set (filter (\<lambda>e. fst e = q) (pushes ws))"
      by simp
    then have "snd (q, z) \<in> snd ` set (filter (\<lambda>e. fst e = q) (pushes ws))"
      by (rule imageI)
    then show ?thesis
      by (simp only: content_make_buckets set_map snd_conv)
  qed
  from q have xy: "x \<in> set (content (make_buckets ws) q)" "y \<in> set (content (make_buckets ws) q)"
    by (simp_all add: mem)
  have "(q, content (make_buckets ws) q) \<in> set (make_buckets ws)"
    by (rule content_entry [OF xy(1)])
  then show "\<exists>b \<in> set (make_buckets ws). x \<in> set (snd b) \<and> y \<in> set (snd b)"
    using xy by (intro bexI [of _ "(q, content (make_buckets ws) q)"]) simp_all
qed

subsection \<open>Wildcard patterns\<close>

lemma length_pattern: "i < length w \<Longrightarrow> length (pattern w i) = length w"
  by (simp add: pattern_def)

lemma nth_pattern:
  "i < length w \<Longrightarrow> k < length w \<Longrightarrow>
   pattern w i ! k = (if k = i then CHR ''*'' else w ! k)"
proof -
  assume i: "i < length w" and k: "k < length w"
  consider "k < i" | "k = i" | "i < k" by linarith
  then show ?thesis
  proof cases
    case 1
    with i show ?thesis by (simp add: pattern_def nth_append)
  next
    case 2
    with i show ?thesis by (simp add: pattern_def nth_append)
  next
    case 3
    then obtain d where d: "k = Suc (i + d)"
      by (metis less_iff_Suc_add)
    with i k show ?thesis by (simp add: pattern_def nth_append)
  qed
qed

lemma pattern_eq_iff:
  assumes "CHR ''*'' \<notin> set x" and "CHR ''*'' \<notin> set y" and "i < length x" and "j < length y"
  shows "pattern x i = pattern y j
         \<longleftrightarrow> length x = length y \<and> i = j \<and> (\<forall>k<length x. k \<noteq> i \<longrightarrow> x ! k = y ! k)"
proof
  assume e: "pattern x i = pattern y j"
  then have len: "length x = length y"
    using assms length_pattern [of i x] length_pattern [of j y] by simp
  have ij: "i = j"
  proof (rule ccontr)
    assume "i \<noteq> j"
    then have "pattern y j ! i = y ! i"
      using assms len by (simp add: nth_pattern)
    moreover have "pattern x i ! i = CHR ''*''"
      using assms by (simp add: nth_pattern)
    ultimately have "y ! i = CHR ''*''"
      using e by simp
    with assms len show False
      by (metis nth_mem)
  qed
  have "\<forall>k<length x. k \<noteq> i \<longrightarrow> x ! k = y ! k"
  proof (intro allI impI)
    fix k assume k: "k < length x" "k \<noteq> i"
    then have "pattern x i ! k = x ! k" "pattern y j ! k = y ! k"
      using assms len ij by (simp_all add: nth_pattern)
    with e show "x ! k = y ! k" by simp
  qed
  with len ij show "length x = length y \<and> i = j \<and> (\<forall>k<length x. k \<noteq> i \<longrightarrow> x ! k = y ! k)"
    by simp
next
  assume a: "length x = length y \<and> i = j \<and> (\<forall>k<length x. k \<noteq> i \<longrightarrow> x ! k = y ! k)"
  show "pattern x i = pattern y j"
  proof (rule nth_equalityI)
    show "length (pattern x i) = length (pattern y j)"
      using a assms by (simp add: length_pattern)
  next
    fix k assume "k < length (pattern x i)"
    then have "k < length x"
      using assms by (simp add: length_pattern)
    then show "pattern x i ! k = pattern y j ! k"
      using a assms by (simp add: nth_pattern)
  qed
qed

lemma share_pattern_iff:
  assumes "CHR ''*'' \<notin> set x" and "CHR ''*'' \<notin> set y" and "y \<noteq> x"
  shows "(\<exists>i<length x. \<exists>j<length y. pattern x i = pattern y j) \<longleftrightarrow> one_letter_apart x y"
proof
  assume "\<exists>i<length x. \<exists>j<length y. pattern x i = pattern y j"
  then obtain i j where ij: "i < length x" "j < length y" "pattern x i = pattern y j"
    by auto
  with pattern_eq_iff [OF assms(1,2) ij(1,2)]
  have len: "length x = length y" and rest: "\<forall>k<length x. k \<noteq> i \<longrightarrow> x ! k = y ! k"
    by simp_all
  have "x ! i \<noteq> y ! i"
  proof
    assume "x ! i = y ! i"
    with rest have "\<forall>k<length x. x ! k = y ! k"
      by metis
    with len have "x = y" by (simp add: nth_equalityI)
    with assms(3) show False by simp
  qed
  with ij len rest show "one_letter_apart x y"
    by (auto simp: one_letter_apart_def)
next
  assume "one_letter_apart x y"
  then obtain i where i: "length x = length y" "i < length x"
    "\<forall>k<length x. k \<noteq> i \<longrightarrow> x ! k = y ! k"
    by (auto simp: one_letter_apart_def)
  then have "pattern x i = pattern y i"
    using pattern_eq_iff [OF assms(1,2), of i i] by simp
  with i show "\<exists>i<length x. \<exists>j<length y. pattern x i = pattern y j"
    by auto
qed

lemma filter_inj_le_1:
  "distinct xs \<Longrightarrow> inj_on f (set xs) \<Longrightarrow> length (filter (\<lambda>i. f i = q) xs) \<le> 1"
proof (induction xs)
  case Nil
  show ?case by simp
next
  case (Cons x xs)
  show ?case
  proof (cases "f x = q")
    case True
    have "filter (\<lambda>i. f i = q) xs = []"
      using Cons.prems True by (auto simp: filter_empty_conv inj_on_def)
    with True show ?thesis by simp
  next
    case False
    with Cons show ?thesis by simp
  qed
qed

lemma distinct_constant_map: "length xs \<le> 1 \<Longrightarrow> distinct (map (\<lambda>i. w) xs)"
  by (cases xs) auto

lemma pattern_inj_on: "CHR ''*'' \<notin> set w \<Longrightarrow> inj_on (pattern w) {0..<length w}"
proof (rule inj_onI)
  fix i j
  assume s: "CHR ''*'' \<notin> set w" and i: "i \<in> {0..<length w}" and j: "j \<in> {0..<length w}"
    and e: "pattern w i = pattern w j"
  from i j have "i < length w" "j < length w" by simp_all
  from pattern_eq_iff [OF s s this] e show "i = j" by simp
qed

lemma distinct_bucket_content:
  assumes "distinct ws" and "\<forall>w \<in> set ws. CHR ''*'' \<notin> set w"
  shows "distinct (map snd (filter (\<lambda>e. fst e = q) (pushes ws)))"
  using assms
proof (induction ws)
  case Nil
  show ?case by (simp add: pushes_def)
next
  case (Cons w ws)
  let ?is = "filter (\<lambda>i. pattern w i = q) [0..<length w]"
  have p: "pushes (w # ws) = map (\<lambda>i. (pattern w i, w)) [0..<length w] @ pushes ws"
    by (simp add: pushes_def)
  have f: "map snd (filter (\<lambda>e. fst e = q) (map (\<lambda>i. (pattern w i, w)) [0..<length w]))
           = map (\<lambda>i. w) ?is"
    by (simp add: filter_map comp_def)
  have "length ?is \<le> 1"
    using Cons.prems pattern_inj_on [of w] by (intro filter_inj_le_1) simp_all
  then have d1: "distinct (map (\<lambda>i. w) ?is)"
    by (rule distinct_constant_map)
  have d2: "distinct (map snd (filter (\<lambda>e. fst e = q) (pushes ws)))"
    using Cons by simp
  have "w \<notin> snd ` set (pushes ws)"
    using Cons.prems by (auto simp: in_pushes)
  then have dis: "set (map (\<lambda>i. w) ?is) \<inter> set (map snd (filter (\<lambda>e. fst e = q) (pushes ws))) = {}"
    by auto
  have "map snd (filter (\<lambda>e. fst e = q) (pushes (w # ws)))
        = map (\<lambda>i. w) ?is @ map snd (filter (\<lambda>e. fst e = q) (pushes ws))"
    unfolding p filter_append map_append f ..
  moreover have "distinct (map (\<lambda>i. w) ?is @ map snd (filter (\<lambda>e. fst e = q) (pushes ws)))"
    using d1 d2 dis by (simp only: distinct_append)
  ultimately show ?case by (simp only:)
qed

lemma distinct_buckets:
  assumes "distinct ws" and "\<forall>w \<in> set ws. CHR ''*'' \<notin> set w"
  shows "\<forall>b \<in> set (make_buckets ws). distinct (snd b)"
proof
  fix b assume "b \<in> set (make_buckets ws)"
  then have "content (make_buckets ws) (fst b) = snd b"
    using entry_content [OF distinct_keys_make_buckets, of "fst b" "snd b" ws] by simp
  then show "distinct (snd b)"
    using distinct_bucket_content [OF assms, of "fst b"] by (simp add: content_make_buckets)
qed

subsection \<open>Words filed by length\<close>

lemma map_of_map_set: "map_of (map_set m k v) k' = (if k' = k then Some v else map_of m k')"
  by (induction m k v rule: map_set.induct) auto

lemma keys_map_set: "fst ` set (map_set m k v) = insert k (fst ` set m)"
  by (induction m k v rule: map_set.induct) auto

lemma distinct_keys_map_set: "distinct (map fst m) \<Longrightarrow> distinct (map fst (map_set m k v))"
proof (induction m k v rule: map_set.induct)
  case (1 k v)
  show ?case by simp
next
  case (2 k' v' m k v)
  then show ?case
    using keys_map_set [of m k v] by (auto simp: image_iff)
qed

lemma content_map_set: "content (map_set m k v) k' = (if k' = k then v else content m k')"
  by (simp add: content_def map_of_map_set)

lemma content_add_by_length:
  "content (add_by_length wbl w) n
   = (if n = length w then set_add (content wbl n) w else content wbl n)"
proof (cases "map_of wbl (length w)")
  case None
  then show ?thesis
    by (simp add: add_by_length_def map_has_def content_def map_of_map_set)
next
  case (Some l)
  then show ?thesis
    by (simp add: add_by_length_def map_has_def content_def map_of_map_set)
qed

lemma distinct_keys_add_by_length:
  "distinct (map fst wbl) \<Longrightarrow> distinct (map fst (add_by_length wbl w))"
  by (simp add: add_by_length_def Let_def distinct_keys_map_set)

lemma distinct_keys_filed:
  "distinct (map fst wbl) \<Longrightarrow> distinct (map fst (foldl add_by_length wbl ws))"
  by (induction ws arbitrary: wbl) (simp_all add: distinct_keys_add_by_length)

lemma content_filed:
  "set (content (foldl add_by_length wbl ws) n)
     = set (content wbl n) \<union> {w \<in> set ws. length w = n}
   \<and> (distinct (content wbl n) \<longrightarrow> distinct (content (foldl add_by_length wbl ws) n))"
proof (induction ws arbitrary: wbl)
  case Nil
  show ?case by simp
next
  case (Cons w ws)
  show ?case
    using Cons [of "add_by_length wbl w"] by (auto simp: content_add_by_length)
qed

subsection \<open>The graph of all groups\<close>

lemma set_neighbors_groups:
  assumes "\<forall>lw \<in> set wbl. distinct (snd lw) \<and> (\<forall>w \<in> set (snd lw). CHR ''*'' \<notin> set w)"
  shows "set (neighbors (foldl (\<lambda>g lw. connect_buckets g (make_buckets (snd lw))) g wbl) x)
         = set (neighbors g x)
           \<union> {y. \<exists>lw \<in> set wbl. y \<noteq> x
                  \<and> (\<exists>b \<in> set (make_buckets (snd lw)). x \<in> set (snd b) \<and> y \<in> set (snd b))}"
  using assms
proof (induction wbl arbitrary: g)
  case Nil
  show ?case by simp
next
  case (Cons lw wbl)
  then have d: "\<forall>b \<in> set (make_buckets (snd lw)). distinct (snd b)"
    by (intro distinct_buckets) simp_all
  have r: "\<forall>lw \<in> set wbl. distinct (snd lw) \<and> (\<forall>w \<in> set (snd lw). CHR ''*'' \<notin> set w)"
    using Cons.prems by simp
  show ?case
    unfolding foldl_Cons Cons.IH [OF r] set_neighbors_connect_buckets [OF d]
    by auto
qed

subsection \<open>One letter apart\<close>

lemma one_letter_apart_Nil [simp]: "\<not> one_letter_apart [] v"
  by (simp add: one_letter_apart_def)

lemma one_letter_apart_Cons:
  "one_letter_apart (x # xs) (y # ys)
   \<longleftrightarrow> (x \<noteq> y \<and> xs = ys) \<or> (x = y \<and> one_letter_apart xs ys)"
proof
  assume "one_letter_apart (x # xs) (y # ys)"
  then obtain i where len: "length xs = length ys" and i: "i < Suc (length xs)"
    and d: "(x # xs) ! i \<noteq> (y # ys) ! i"
    and r: "\<forall>k<Suc (length xs). k \<noteq> i \<longrightarrow> (x # xs) ! k = (y # ys) ! k"
    by (auto simp: one_letter_apart_def)
  show "(x \<noteq> y \<and> xs = ys) \<or> (x = y \<and> one_letter_apart xs ys)"
  proof (cases i)
    case 0
    have "xs ! k = ys ! k" if "k < length xs" for k
      using r [rule_format, of "Suc k"] that 0 by simp
    with len have "xs = ys" by (simp add: nth_equalityI)
    with d 0 show ?thesis by simp
  next
    case (Suc j)
    have "x = y" using r [rule_format, of 0] Suc by simp
    moreover have "xs ! k = ys ! k" if "k < length xs" "k \<noteq> j" for k
      using r [rule_format, of "Suc k"] that Suc by simp
    ultimately show ?thesis
      using len i d Suc by (auto simp: one_letter_apart_def)
  qed
next
  assume "(x \<noteq> y \<and> xs = ys) \<or> (x = y \<and> one_letter_apart xs ys)"
  then show "one_letter_apart (x # xs) (y # ys)"
  proof
    assume "x \<noteq> y \<and> xs = ys"
    then show ?thesis
      unfolding one_letter_apart_def by (intro conjI exI [of _ 0]) (auto simp: nth_Cons')
  next
    assume a: "x = y \<and> one_letter_apart xs ys"
    then obtain j where len: "length xs = length ys" and j: "j < length xs" "xs ! j \<noteq> ys ! j"
      "\<forall>k<length xs. k \<noteq> j \<longrightarrow> xs ! k = ys ! k"
      by (auto simp: one_letter_apart_def)
    have "(x # xs) ! k = (y # ys) ! k" if "k < Suc (length xs)" "k \<noteq> Suc j" for k
      using that a j(3) by (cases k) auto
    with len j show ?thesis
      unfolding one_letter_apart_def by (intro conjI exI [of _ "Suc j"]) auto
  qed
qed

lemma hamming_zero: "length a = length b \<Longrightarrow> hamming a b = 0 \<longleftrightarrow> a = b"
  by (induction a b rule: list_induct2) auto

lemma hamming_one: "length a = length b \<Longrightarrow> hamming a b = 1 \<longleftrightarrow> one_letter_apart a b"
  by (induction a b rule: list_induct2) (auto simp: one_letter_apart_Cons hamming_zero)

lemma differences_loop_hamming:
  "length a = length b \<Longrightarrow> d \<le> 1 \<Longrightarrow> differences_loop a b d \<longleftrightarrow> d + hamming a b = 1"
  by (induction a b arbitrary: d rule: list_induct2) auto

lemma areNeighbors_iff: "areNeighbors u v \<longleftrightarrow> one_letter_apart u v"
proof (cases "length u = length v")
  case True
  then show ?thesis
    using differences_loop_hamming [of u v 0] hamming_one [of u v]
    by (simp add: areNeighbors_def)
next
  case False
  then show ?thesis
    by (simp add: areNeighbors_def one_letter_apart_def)
qed

lemma one_letter_apart_sym: "one_letter_apart u v \<Longrightarrow> one_letter_apart v u"
  unfolding one_letter_apart_def by (metis)

lemma one_letter_apart_irrefl: "\<not> one_letter_apart u u"
  by (simp add: one_letter_apart_def)

subsection \<open>The graph built by \<open>initialize\<close>\<close>

lemma is_word_no_star: "is_word w \<Longrightarrow> CHR ''*'' \<notin> set w"
  by (auto simp: is_word_def list_all_iff is_lower_def)

lemma built_graph_neighbors:
  assumes star: "\<forall>w \<in> set ws. CHR ''*'' \<notin> set w" and x: "x \<in> set ws"
  shows "set (neighbors
                (foldl (\<lambda>g lw. connect_buckets g (make_buckets (snd lw))) []
                   (foldl add_by_length [] ws)) x)
         = {y \<in> set ws. one_letter_apart x y}"
proof -
  let ?wbl = "foldl add_by_length [] ws"
  have keys: "distinct (map fst ?wbl)"
    by (rule distinct_keys_filed) simp
  have cont: "set (content ?wbl n) = {w \<in> set ws. length w = n}" "distinct (content ?wbl n)" for n
    using content_filed [of "[]" ws n] by (simp_all add: content_def)
  have entry: "snd lw = content ?wbl (fst lw)" if "lw \<in> set ?wbl" for lw
    using entry_content [OF keys, of "fst lw" "snd lw"] that by simp
  have groups: "\<forall>lw \<in> set ?wbl. distinct (snd lw) \<and> (\<forall>w \<in> set (snd lw). CHR ''*'' \<notin> set w)"
    using entry cont star by auto
  have share: "(\<exists>b \<in> set (make_buckets l). x \<in> set (snd b) \<and> y \<in> set (snd b))
               \<longleftrightarrow> x \<in> set l \<and> y \<in> set l
                   \<and> (\<exists>i<length x. \<exists>j<length y. pattern x i = pattern y j)" for l y
    unfolding bucket_members in_pushes by auto
  have "set (neighbors (foldl (\<lambda>g lw. connect_buckets g (make_buckets (snd lw))) [] ?wbl) x)
        = {y. \<exists>lw \<in> set ?wbl. y \<noteq> x
                \<and> (\<exists>b \<in> set (make_buckets (snd lw)). x \<in> set (snd b) \<and> y \<in> set (snd b))}"
    unfolding set_neighbors_groups [OF groups] by (simp add: neighbors_def)
  also have "\<dots> = {y \<in> set ws. one_letter_apart x y}"
  proof (rule set_eqI)
    fix y
    show "y \<in> {y. \<exists>lw \<in> set ?wbl. y \<noteq> x
                \<and> (\<exists>b \<in> set (make_buckets (snd lw)). x \<in> set (snd b) \<and> y \<in> set (snd b))}
          \<longleftrightarrow> y \<in> {y \<in> set ws. one_letter_apart x y}"
    proof
      assume "y \<in> {y. \<exists>lw \<in> set ?wbl. y \<noteq> x
                \<and> (\<exists>b \<in> set (make_buckets (snd lw)). x \<in> set (snd b) \<and> y \<in> set (snd b))}"
      then obtain lw where lw: "lw \<in> set ?wbl" and ne: "y \<noteq> x"
        and b: "\<exists>b \<in> set (make_buckets (snd lw)). x \<in> set (snd b) \<and> y \<in> set (snd b)"
        by blast
      from b have m: "x \<in> set (snd lw)" "y \<in> set (snd lw)"
        "\<exists>i<length x. \<exists>j<length y. pattern x i = pattern y j"
        unfolding share by simp_all
      from entry [OF lw] cont(1) [of "fst lw"] m have yws: "y \<in> set ws"
        by auto
      with star x have "CHR ''*'' \<notin> set x" "CHR ''*'' \<notin> set y"
        by simp_all
      from share_pattern_iff [OF this ne] m(3) yws
      show "y \<in> {y \<in> set ws. one_letter_apart x y}"
        by simp
    next
      assume "y \<in> {y \<in> set ws. one_letter_apart x y}"
      then have yws: "y \<in> set ws" and ola: "one_letter_apart x y"
        by simp_all
      then have ne: "y \<noteq> x"
        using one_letter_apart_irrefl by blast
      from ola have len: "length y = length x"
        by (simp add: one_letter_apart_def)
      let ?l = "content ?wbl (length x)"
      from x yws len have m: "x \<in> set ?l" "y \<in> set ?l"
        by (simp_all add: cont(1))
      have e: "(length x, ?l) \<in> set ?wbl"
        by (rule content_entry [OF m(1)])
      from star x yws have "CHR ''*'' \<notin> set x" "CHR ''*'' \<notin> set y"
        by simp_all
      from share_pattern_iff [OF this ne] ola
      have "\<exists>i<length x. \<exists>j<length y. pattern x i = pattern y j"
        by simp
      with m have "\<exists>b \<in> set (make_buckets ?l). x \<in> set (snd b) \<and> y \<in> set (snd b)"
        unfolding share by simp
      with e ne have "\<exists>lw \<in> set ?wbl. y \<noteq> x
          \<and> (\<exists>b \<in> set (make_buckets (snd lw)). x \<in> set (snd b) \<and> y \<in> set (snd b))"
        by (intro bexI [of _ "(length x, ?l)"]) simp_all
      then show "y \<in> {y. \<exists>lw \<in> set ?wbl. y \<noteq> x
                \<and> (\<exists>b \<in> set (make_buckets (snd lw)). x \<in> set (snd b) \<and> y \<in> set (snd b))}"
        by simp
    qed
  qed
  finally show ?thesis .
qed

lemma initialize_fresh:
  "wordSet (initialize new_engine ls) = set_of_array (processedWords ls)"
  "wordGraph (initialize new_engine ls)
   = foldl (\<lambda>g lw. connect_buckets g (make_buckets (snd lw))) []
       (foldl add_by_length [] (processedWords ls))"
  by (simp_all add: initialize_def buildWordGraph_def new_engine_def Let_def)

lemma processedWords_are_words: "w \<in> set (processedWords ls) \<Longrightarrow> is_word w"
  by (auto simp: processedWords_def)

text \<open>
  C2. After \<open>initialize\<close> (and with it \<open>buildWordGraph\<close>) on any list of dictionary lines,
  for all dictionary words \<open>u\<close> and \<open>v\<close>: \<open>v\<close> is among the neighbours of \<open>u\<close> exactly when
  the two have equal length and differ in exactly one position, which is also what
  \<open>areNeighbors\<close> computes; the relation is symmetric, and no word is its own neighbour.
\<close>

theorem word_graph_invariant:
  assumes "u \<in> set (wordSet (initialize new_engine ls))"
    and "v \<in> set (wordSet (initialize new_engine ls))"
  shows "(v \<in> set (getNeighbors (initialize new_engine ls) u) \<longleftrightarrow> one_letter_apart u v)
       \<and> (areNeighbors u v \<longleftrightarrow> v \<in> set (getNeighbors (initialize new_engine ls) u))
       \<and> (v \<in> set (getNeighbors (initialize new_engine ls) u)
            \<longleftrightarrow> u \<in> set (getNeighbors (initialize new_engine ls) v))
       \<and> u \<notin> set (getNeighbors (initialize new_engine ls) u)"
proof -
  let ?ws = "processedWords ls"
  from assms have uv: "u \<in> set ?ws" "v \<in> set ?ws"
    by (simp_all add: initialize_fresh)
  have star: "\<forall>w \<in> set ?ws. CHR ''*'' \<notin> set w"
    using processedWords_are_words is_word_no_star by blast
  have n: "set (getNeighbors (initialize new_engine ls) x) = {y \<in> set ?ws. one_letter_apart x y}"
    if "x \<in> set ?ws" for x
    unfolding getNeighbors_def initialize_fresh by (rule built_graph_neighbors [OF star that])
  from uv show ?thesis
    using one_letter_apart_sym [of u v] one_letter_apart_sym [of v u] one_letter_apart_irrefl [of u]
    by (auto simp: n areNeighbors_iff)
qed

theorem word_graph_invariant_witness:
  "''cot'' \<in> set (getNeighbors (initialize new_engine [''cat'', ''cot'', ''cog'']) ''cat'')
   \<and> areNeighbors ''cat'' ''cot''
   \<and> ''cat'' \<in> set (getNeighbors (initialize new_engine [''cat'', ''cot'', ''cog'']) ''cot'')
   \<and> ''cat'' \<notin> set (getNeighbors (initialize new_engine [''cat'', ''cot'', ''cog'']) ''cat'')"
proof -
  have ws: "wordSet (initialize new_engine [''cat'', ''cot'', ''cog'']) = [''cat'', ''cot'', ''cog'']"
    by code_simp
  have h: "''cat'' \<in> set (wordSet (initialize new_engine [''cat'', ''cot'', ''cog'']))"
    "''cot'' \<in> set (wordSet (initialize new_engine [''cat'', ''cot'', ''cog'']))"
    by (simp_all add: ws)
  have a: "one_letter_apart ''cat'' ''cot''"
    unfolding one_letter_apart_def by (intro conjI exI [of _ 1]) (simp_all add: nth_Cons')
  from word_graph_invariant [OF h] a show ?thesis
    by blast
qed


section \<open>What the search does to the engine\<close>

lemma same_but_estimates_refl [simp]: "same_but_estimates st st"
  by (simp add: same_but_estimates_def)

lemma same_but_estimates_trans:
  "same_but_estimates a b \<Longrightarrow> same_but_estimates b c \<Longrightarrow> same_but_estimates a c"
  by (simp add: same_but_estimates_def)

lemma heuristic_same [simp]: "same_but_estimates st (snd (heuristic st a b))"
  by (simp add: heuristic_def same_but_estimates_def split: option.splits)

lemma cache_key_same_target [simp]: "cache_key a t = cache_key a' t \<longleftrightarrow> a = a'"
  by (simp add: cache_key_def)

lemma heuristic_consistent:
  assumes "estimates_consistent st t"
  shows "fst (heuristic st a t) = heuristicValue a t"
    and "estimates_consistent (snd (heuristic st a t)) t"
  using assms
  by (auto simp: heuristic_def estimates_consistent_def split: option.splits)

lemma relax_eng:
  "eng (relax current end useHeuristic s neighbor) = eng s
   \<or> eng (relax current end useHeuristic s neighbor) = snd (heuristic (eng s) neighbor end)"
  by (auto simp: relax_def Let_def split: option.splits prod.splits)

lemma relax_same: "same_but_estimates (eng s) (eng (relax current end useHeuristic s neighbor))"
  using relax_eng [of current "end" useHeuristic s neighbor] by auto

lemma relax_consistent:
  "estimates_consistent (eng s) end \<Longrightarrow>
   estimates_consistent (eng (relax current end useHeuristic s neighbor)) end"
  using relax_eng [of current "end" useHeuristic s neighbor]
  by (auto simp: heuristic_consistent)

lemma foldl_relax_same:
  "same_but_estimates (eng s) (eng (foldl (relax current end useHeuristic) s ns))"
proof (induction ns arbitrary: s)
  case Nil
  show ?case by simp
next
  case (Cons n ns)
  show ?case
    using same_but_estimates_trans [OF relax_same Cons] by simp
qed

lemma foldl_relax_consistent:
  "estimates_consistent (eng s) end \<Longrightarrow>
   estimates_consistent (eng (foldl (relax current end useHeuristic) s ns)) end"
  by (induction ns arbitrary: s) (simp_all add: relax_consistent)

lemma expand_same: "same_but_estimates (eng s) (eng (expand current end useHeuristic s))"
  using foldl_relax_same
    [of "s\<lparr> openSet := map_delete (openSet s) current,
           closedSet := set_add (closedSet s) current \<rparr>" current "end" useHeuristic]
  by (simp add: expand_def)

lemma expand_consistent:
  "estimates_consistent (eng s) end \<Longrightarrow>
   estimates_consistent (eng (expand current end useHeuristic s)) end"
  by (simp add: expand_def foldl_relax_consistent)

text \<open>The engine that the loop returns: the one it started with, up to estimates added to
  the heuristic cache, and with the path stored when one was found.\<close>

lemma astar_loop_engine_raw:
  assumes "astar_loop start end useHeuristic s = Some y"
  shows "\<exists>st1. same_but_estimates (eng s) st1
      \<and> (estimates_consistent (eng s) end \<longrightarrow> estimates_consistent st1 end)
      \<and> (case fst y of
            None \<Rightarrow> snd y = st1
          | Some path \<Rightarrow>
              snd y = st1\<lparr> precomputedPaths :=
                        (precomputedPaths st1)(cache_key start end \<mapsto> path) \<rparr>)"
proof (rule astar_loop.raw_induct
    [where P = "\<lambda>start end useHeuristic s y.
       \<exists>st1. same_but_estimates (eng s) st1
      \<and> (estimates_consistent (eng s) end \<longrightarrow> estimates_consistent st1 end)
      \<and> (case fst y of
            None \<Rightarrow> snd y = st1
          | Some path \<Rightarrow>
              snd y = st1\<lparr> precomputedPaths :=
                        (precomputedPaths st1)(cache_key start end \<mapsto> path) \<rparr>)",
     OF _ assms])
  fix loop :: "string \<Rightarrow> string \<Rightarrow> bool \<Rightarrow> search \<Rightarrow> (string list option \<times> engine) option"
    and start "end" :: string and useHeuristic :: bool and s :: search
    and y :: "string list option \<times> engine"
  assume IH: "\<And>start end useHeuristic s y. loop start end useHeuristic s = Some y \<Longrightarrow>
       \<exists>st1. same_but_estimates (eng s) st1
      \<and> (estimates_consistent (eng s) end \<longrightarrow> estimates_consistent st1 end)
      \<and> (case fst y of
            None \<Rightarrow> snd y = st1
          | Some path \<Rightarrow>
              snd y = st1\<lparr> precomputedPaths :=
                        (precomputedPaths st1)(cache_key start end \<mapsto> path) \<rparr>)"
  assume body: "(if openSet s = [] then Some (None, eng s)
      else case lowest (openSet s) None PosInf of
             None \<Rightarrow> None
           | Some current \<Rightarrow>
               if current = end
               then case reconstruct (cameFrom s) (Some current) [] of
                      None \<Rightarrow> None
                    | Some path \<Rightarrow>
                        Some (Some path,
                          (eng s)\<lparr> precomputedPaths :=
                             (precomputedPaths (eng s))(cache_key start end \<mapsto> path) \<rparr>)
               else loop start end useHeuristic (expand current end useHeuristic s)) = Some y"
  show "\<exists>st1. same_but_estimates (eng s) st1
      \<and> (estimates_consistent (eng s) end \<longrightarrow> estimates_consistent st1 end)
      \<and> (case fst y of
            None \<Rightarrow> snd y = st1
          | Some path \<Rightarrow>
              snd y = st1\<lparr> precomputedPaths :=
                        (precomputedPaths st1)(cache_key start end \<mapsto> path) \<rparr>)"
  proof (cases "openSet s = []")
    case True
    with body show ?thesis
      by (intro exI [of _ "eng s"]) auto
  next
    case False
    with body obtain current where cur: "lowest (openSet s) None PosInf = Some current"
      by (auto split: option.splits)
    show ?thesis
    proof (cases "current = end")
      case True
      with body False cur show ?thesis
        by (intro exI [of _ "eng s"]) (auto split: option.splits)
    next
      case ne: False
      with body False cur
      have "loop start end useHeuristic (expand current end useHeuristic s) = Some y"
        by simp
      from IH [OF this] obtain st1 where
        st1: "same_but_estimates (eng (expand current end useHeuristic s)) st1"
          "estimates_consistent (eng (expand current end useHeuristic s)) end
             \<longrightarrow> estimates_consistent st1 end"
          "case fst y of None \<Rightarrow> snd y = st1
           | Some path \<Rightarrow> snd y = st1\<lparr> precomputedPaths :=
                            (precomputedPaths st1)(cache_key start end \<mapsto> path) \<rparr>"
        by blast
      show ?thesis
        using st1 same_but_estimates_trans [OF expand_same st1(1)] expand_consistent
        by (intro exI [of _ st1]) auto
    qed
  qed
qed

lemma astar_loop_engine:
  assumes "astar_loop start end useHeuristic s = Some (r, st')"
  obtains st1 where "same_but_estimates (eng s) st1"
    and "estimates_consistent (eng s) end \<Longrightarrow> estimates_consistent st1 end"
    and "r = None \<Longrightarrow> st' = st1"
    and "\<And>path. r = Some path \<Longrightarrow>
           st' = st1\<lparr> precomputedPaths :=
                   (precomputedPaths st1)(cache_key start end \<mapsto> path) \<rparr>"
  using astar_loop_engine_raw [OF assms] by (cases r) auto

lemma estimates_consistent_paths [simp]:
  "estimates_consistent (st\<lparr> precomputedPaths := pc \<rparr>) t = estimates_consistent st t"
  by (simp add: estimates_consistent_def)

lemma same_but_estimates_fields:
  "same_but_estimates st st' \<Longrightarrow>
   wordGraph st' = wordGraph st \<and> precomputedPaths st' = precomputedPaths st"
  by (simp add: same_but_estimates_def)

text \<open>The engine after \<open>findPath\<close>: the graph is the same, consistent estimates stay
  consistent, and the path cache has at most the new entry.\<close>

lemma findPath_engine:
  assumes "findPath st start end useHeuristic = Some y"
  shows "wordGraph (snd y) = wordGraph st"
    and "estimates_consistent st end \<Longrightarrow> estimates_consistent (snd y) end"
    and "fst y = None \<Longrightarrow> precomputedPaths (snd y) = precomputedPaths st"
    and "fst y = Some path \<Longrightarrow> start \<noteq> end \<Longrightarrow>
         length start = length end
         \<and> precomputedPaths (snd y) (cache_key start end) = Some path"
    and "fst y = Some path \<Longrightarrow> start \<noteq> end \<Longrightarrow>
         precomputedPaths (snd y) = (precomputedPaths st)(cache_key start end \<mapsto> path)"
proof -
  let ?e1 = "if useHeuristic then snd (heuristic st start end) else st"
  let ?s0 = "\<lparr> openSet = [(start, Fin 0)], closedSet = [], cameFrom = Map.empty,
               gScore = [start \<mapsto> 0], eng = ?e1 \<rparr>"
  have e1: "same_but_estimates st ?e1"
    "estimates_consistent st end \<Longrightarrow> estimates_consistent ?e1 end"
    by (simp_all add: heuristic_consistent)
  consider (len) "length start \<noteq> length end" | (eq) "length start = length end" "start = end"
    | (hit) p where "length start = length end" "start \<noteq> end"
        "precomputedPaths st (cache_key start end) = Some p"
    | (run) "length start = length end" "start \<noteq> end"
        "precomputedPaths st (cache_key start end) = None"
    by (cases "precomputedPaths st (cache_key start end)") auto
  then have "wordGraph (snd y) = wordGraph st
    \<and> (estimates_consistent st end \<longrightarrow> estimates_consistent (snd y) end)
    \<and> (fst y = None \<longrightarrow> precomputedPaths (snd y) = precomputedPaths st)
    \<and> (fst y = Some path \<longrightarrow> start \<noteq> end \<longrightarrow>
         length start = length end
         \<and> precomputedPaths (snd y) (cache_key start end) = Some path
         \<and> precomputedPaths (snd y) = (precomputedPaths st)(cache_key start end \<mapsto> path))"
  proof cases
    case len
    with assms show ?thesis by (auto simp: findPath_def)
  next
    case eq
    with assms show ?thesis by (auto simp: findPath_def)
  next
    case hit
    with assms show ?thesis by (auto simp: findPath_def map_upd_triv)
  next
    case run
    with assms have loop: "astar_loop start end useHeuristic ?s0 = Some (fst y, snd y)"
      by (simp add: findPath_def split: if_splits prod.splits)
    from astar_loop_engine [OF loop] obtain st1 where
      st1: "same_but_estimates (eng ?s0) st1"
        "estimates_consistent (eng ?s0) end \<Longrightarrow> estimates_consistent st1 end"
        "fst y = None \<Longrightarrow> snd y = st1"
        "\<And>path. fst y = Some path \<Longrightarrow>
           snd y = st1\<lparr> precomputedPaths :=
                   (precomputedPaths st1)(cache_key start end \<mapsto> path) \<rparr>"
      by blast
    have "eng ?s0 = ?e1"
      by simp
    with st1(1) have "same_but_estimates ?e1 st1"
      by (simp only:)
    with e1(1) have s: "same_but_estimates st st1"
      by (rule same_but_estimates_trans)
    then have g: "wordGraph st1 = wordGraph st" and pp: "precomputedPaths st1 = precomputedPaths st"
      by (simp_all add: same_but_estimates_def)
    have c1: "estimates_consistent st end \<longrightarrow> estimates_consistent st1 end"
      using st1(2) e1(2) \<open>eng ?s0 = ?e1\<close> by (simp only:) blast
    show ?thesis
    proof (cases "fst y")
      case None
      with st1(3) have "snd y = st1" by simp
      with None g pp c1 show ?thesis by simp
    next
      case (Some p)
      with st1(4) have "snd y = st1\<lparr> precomputedPaths :=
                   (precomputedPaths st1)(cache_key start end \<mapsto> p) \<rparr>" by simp
      with Some g c1 run pp show ?thesis by simp
    qed
  qed
  then show "wordGraph (snd y) = wordGraph st"
    and "estimates_consistent st end \<Longrightarrow> estimates_consistent (snd y) end"
    and "fst y = None \<Longrightarrow> precomputedPaths (snd y) = precomputedPaths st"
    and "fst y = Some path \<Longrightarrow> start \<noteq> end \<Longrightarrow>
         length start = length end
         \<and> precomputedPaths (snd y) (cache_key start end) = Some path"
    and "fst y = Some path \<Longrightarrow> start \<noteq> end \<Longrightarrow>
         precomputedPaths (snd y) = (precomputedPaths st)(cache_key start end \<mapsto> path)"
    by simp_all
qed

lemma initialize_caches [simp]:
  "heuristicCache (initialize st ls) = heuristicCache st"
  "precomputedPaths (initialize st ls) = precomputedPaths st"
  by (simp_all add: initialize_def buildWordGraph_def Let_def)


section \<open>Two small dictionaries\<close>

text \<open>The searches of the examples below, carried out step by step: the graph, the
  estimates, and the result of \<open>findPath\<close> with the engine it leaves.\<close>

lemma new_engine_caches:
  "heuristicCache new_engine = Map.empty" "precomputedPaths new_engine = Map.empty"
  by (simp_all add: new_engine_def)

lemma graph_cat_cot_cog:
  "wordGraph (initialize new_engine [''cat'', ''cot'', ''cog''])
   = [(''cat'', [''cot'']), (''cot'', [''cat'', ''cog'']), (''cog'', [''cot''])]"
  by code_simp

lemma graph_cat_cot_dog:
  "wordGraph (initialize new_engine [''cat'', ''cot'', ''dog''])
   = [(''cat'', [''cot'']), (''cot'', [''cat''])]"
  by code_simp

lemma heuristicValue_cat_cog:
  "heuristicValue ''cat'' ''cog'' = 4953959590107545 / 2251799813685248"
proof -
  have "hamming ''cat'' ''cog'' = 2" "calculateLevenshtein ''cat'' ''cog'' = 2"
    "calculateCharFrequencyDifference ''cat'' ''cog'' = 4"
    by code_simp+
  then show ?thesis
    by (simp add: heuristicValue_def roundings)
qed

lemma heuristicValue_cot_cog:
  "heuristicValue ''cot'' ''cog'' = 4953959590107545 / 4503599627370496"
proof -
  have "hamming ''cot'' ''cog'' = 1" "calculateLevenshtein ''cot'' ''cog'' = 1"
    "calculateCharFrequencyDifference ''cot'' ''cog'' = 2"
    by code_simp+
  then show ?thesis
    by (simp add: heuristicValue_def roundings)
qed

lemma heuristicValue_cog_cog: "heuristicValue ''cog'' ''cog'' = 0"
proof -
  have "hamming ''cog'' ''cog'' = 0" "calculateLevenshtein ''cog'' ''cog'' = 0"
    "calculateCharFrequencyDifference ''cog'' ''cog'' = 0"
    by code_simp+
  then show ?thesis
    by (simp add: heuristicValue_def roundings)
qed

lemma heuristicValue_cat_dog:
  "heuristicValue ''cat'' ''dog'' = 3715469692580659 / 1125899906842624"
proof -
  have "hamming ''cat'' ''dog'' = 3" "calculateLevenshtein ''cat'' ''dog'' = 3"
    "calculateCharFrequencyDifference ''cat'' ''dog'' = 6"
    by code_simp+
  then show ?thesis
    by (simp add: heuristicValue_def roundings)
qed

lemma heuristicValue_cot_dog:
  "heuristicValue ''cot'' ''dog'' = 4953959590107545 / 2251799813685248"
proof -
  have "hamming ''cot'' ''dog'' = 2" "calculateLevenshtein ''cot'' ''dog'' = 2"
    "calculateCharFrequencyDifference ''cot'' ''dog'' = 4"
    by code_simp+
  then show ?thesis
    by (simp add: heuristicValue_def roundings)
qed

lemmas search_steps =
  findPath_def heuristic_def astar_loop.simps expand_def relax_def improves_def
  map_has_def map_delete_def set_add_def neighbors_def reconstruct.simps cache_key_def
  Let_def less_jsnum_def new_engine_caches roundings

lemma findPath_cat_cog:
  "findPath (initialize new_engine [''cat'', ''cot'', ''cog'']) ''cat'' ''cog'' True
   = Some (Some [''cat'', ''cot'', ''cog''],
       (initialize new_engine [''cat'', ''cot'', ''cog''])
         \<lparr> precomputedPaths := [''cat-cog'' \<mapsto> [''cat'', ''cot'', ''cog'']],
           heuristicCache := [''cat-cog'' \<mapsto> 4953959590107545 / 2251799813685248,
                              ''cot-cog'' \<mapsto> 4953959590107545 / 4503599627370496,
                              ''cog-cog'' \<mapsto> 0] \<rparr>)"
  by (simp add: search_steps graph_cat_cot_cog heuristicValue_cat_cog heuristicValue_cot_cog
      heuristicValue_cog_cog)

lemma findPath_cat_dog:
  "findPath (initialize new_engine [''cat'', ''cot'', ''dog'']) ''cat'' ''dog'' True
   = Some (None,
       (initialize new_engine [''cat'', ''cot'', ''dog''])
         \<lparr> heuristicCache := [''cat-dog'' \<mapsto> 3715469692580659 / 1125899906842624,
                              ''cot-dog'' \<mapsto> 4953959590107545 / 2251799813685248] \<rparr>)"
  by (simp add: search_steps graph_cat_cot_dog heuristicValue_cat_dog heuristicValue_cot_dog)

lemma calculateDifficulty_cat_cog:
  "map_option fst
     (calculateDifficulty (initialize new_engine [''cat'', ''cot'', ''cog'']) ''cat'' ''cog'')
   = Some (Score (6989961921647957 / 140737488355328))"
  by (simp add: calculateDifficulty_def findPath_cat_cog heuristic_def cache_key_def
      getNeighbors_def neighbors_def graph_cat_cot_cog roundings)

section \<open>What the path cache holds\<close>

text \<open>The keys of two ordered pairs of equally long words are different.\<close>

lemma cache_key_pairs:
  assumes "length a = length b" and "length c = length d"
  shows "cache_key a b = cache_key c d \<longleftrightarrow> a = c \<and> b = d"
proof
  assume k: "cache_key a b = cache_key c d"
  then have "length (cache_key a b) = length (cache_key c d)"
    by simp
  with assms have "length a = length c"
    by (simp add: cache_key_def)
  with k show "a = c \<and> b = d"
    by (simp add: cache_key_def)
qed simp

lemma findPath_cached:
  "length start = length end \<Longrightarrow> start \<noteq> end \<Longrightarrow>
   precomputedPaths st (cache_key start end) = Some path \<Longrightarrow>
   findPath st start end useHeuristic = Some (Some path, st)"
  by (simp add: findPath_def)

text \<open>A query of any pair leaves the stored path of another pair where it is.\<close>

lemma findPath_keeps_entry:
  assumes "findPath st a b useHeuristic = Some z"
    and "precomputedPaths st (cache_key start end) = Some path"
    and "length start = length end" and "start \<noteq> end"
  shows "precomputedPaths (snd z) (cache_key start end) = Some path"
proof (cases "fst z")
  case None
  with findPath_engine(3) [OF assms(1)] assms(2) show ?thesis by simp
next
  case (Some p)
  show ?thesis
  proof (cases "a = b")
    case True
    with assms(1) have "snd z = st"
      by (auto simp: findPath_def)
    with assms(2) show ?thesis by simp
  next
    case False
    from findPath_engine(4,5) [OF assms(1) Some False]
    have l: "length a = length b"
      and u: "precomputedPaths (snd z) = (precomputedPaths st)(cache_key a b \<mapsto> p)"
      by simp_all
    show ?thesis
    proof (cases "cache_key a b = cache_key start end")
      case True
      with l assms(3) have "a = start" "b = end"
        by (simp_all add: cache_key_pairs)
      with findPath_cached [OF assms(3,4,2), of useHeuristic] assms(1) have "z = (Some path, st)"
        by simp
      with assms(2) show ?thesis by simp
    next
      case False
      with u assms(2) show ?thesis by simp
    qed
  qed
qed

text \<open>
  C3, as the code has it. \<open>findPath\<close> stores each path it finds for two different words
  under the key of the ordered pair and changes no other entry of the path cache; the keys
  of different ordered pairs of equally long words are different. A later query of the
  same pair, at once or after a query of any other pair, is answered with that path from
  the cache, leaving the engine as it is. When \<open>findPath\<close> finds no path it stores
  nothing: the path cache is what it was before the call. \<open>findPathBidirectional\<close>
  neither reads nor writes the path cache: its result is the same whatever the cache
  holds.
\<close>

theorem findPath_caching:
  assumes "findPath st start end useHeuristic = Some y" and "start \<noteq> end"
  shows "(\<forall>path. fst y = Some path \<longrightarrow>
            precomputedPaths (snd y) = (precomputedPaths st)(cache_key start end \<mapsto> path)
            \<and> findPath (snd y) start end again = Some (Some path, snd y)
            \<and> (\<forall>a b other z. findPath (snd y) a b other = Some z \<longrightarrow>
                  findPath (snd z) start end again = Some (Some path, snd z)))
       \<and> (fst y = None \<longrightarrow> precomputedPaths (snd y) = precomputedPaths st)
       \<and> (\<forall>a b c d. length a = length b \<and> length c = length d \<longrightarrow>
             (cache_key a b = cache_key c d \<longleftrightarrow> a = c \<and> b = d))
       \<and> findPathBidirectional (st\<lparr> precomputedPaths := pc \<rparr>) start end
           = findPathBidirectional st start end"
proof -
  have found: "precomputedPaths (snd y) = (precomputedPaths st)(cache_key start end \<mapsto> path)
        \<and> findPath (snd y) start end again = Some (Some path, snd y)
        \<and> (\<forall>a b other z. findPath (snd y) a b other = Some z \<longrightarrow>
                  findPath (snd z) start end again = Some (Some path, snd z))"
    if "fst y = Some path" for path
  proof -
    from findPath_engine(4,5) [OF assms(1) that assms(2)]
    have l: "length start = length end"
      and e: "precomputedPaths (snd y) (cache_key start end) = Some path"
      and u: "precomputedPaths (snd y) = (precomputedPaths st)(cache_key start end \<mapsto> path)"
      by simp_all
    have "findPath (snd z) start end again = Some (Some path, snd z)"
      if "findPath (snd y) a b other = Some z" for a b other z
      using findPath_keeps_entry [OF that e l assms(2)] l assms(2)
      by (rule findPath_cached [rotated 2])
    with u findPath_cached [OF l assms(2) e] show ?thesis
      by blast
  qed
  moreover have "fst y = None \<longrightarrow> precomputedPaths (snd y) = precomputedPaths st"
    using findPath_engine(3) [OF assms(1)] by simp
  moreover have "\<forall>a b c d. length a = length b \<and> length c = length d \<longrightarrow>
             (cache_key a b = cache_key c d \<longleftrightarrow> a = c \<and> b = d)"
    by (simp add: cache_key_pairs)
  moreover have "findPathBidirectional (st\<lparr> precomputedPaths := pc \<rparr>) start end
           = findPathBidirectional st start end"
    by (simp add: findPathBidirectional_def)
  ultimately show ?thesis by blast
qed

lemma findPath_cog_cat_later:
  "findPath
     ((initialize new_engine [''cat'', ''cot'', ''cog''])
         \<lparr> precomputedPaths := [''cat-cog'' \<mapsto> [''cat'', ''cot'', ''cog'']],
           heuristicCache := [''cat-cog'' \<mapsto> 4953959590107545 / 2251799813685248,
                              ''cot-cog'' \<mapsto> 4953959590107545 / 4503599627370496,
                              ''cog-cog'' \<mapsto> 0] \<rparr>) ''cog'' ''cat'' False
   = Some (Some [''cog'', ''cot'', ''cat''],
       (initialize new_engine [''cat'', ''cot'', ''cog''])
         \<lparr> precomputedPaths := [''cat-cog'' \<mapsto> [''cat'', ''cot'', ''cog''],
                               ''cog-cat'' \<mapsto> [''cog'', ''cot'', ''cat'']],
           heuristicCache := [''cat-cog'' \<mapsto> 4953959590107545 / 2251799813685248,
                              ''cot-cog'' \<mapsto> 4953959590107545 / 4503599627370496,
                              ''cog-cog'' \<mapsto> 0] \<rparr>)"
  by (simp add: search_steps graph_cat_cot_cog)

theorem findPath_caching_witness:
  "map_option fst
     (findPath (initialize new_engine [''cat'', ''cot'', ''cog'']) ''cat'' ''cog'' True)
   = Some (Some [''cat'', ''cot'', ''cog''])
   \<and> map_option (\<lambda>y. precomputedPaths (snd y) (cache_key ''cat'' ''cog''))
       (findPath (initialize new_engine [''cat'', ''cot'', ''cog'']) ''cat'' ''cog'' True)
     = Some (Some [''cat'', ''cot'', ''cog''])
   \<and> map_option (\<lambda>y. findPath (snd y) ''cat'' ''cog'' False = Some (fst y, snd y))
       (findPath (initialize new_engine [''cat'', ''cot'', ''cog'']) ''cat'' ''cog'' True)
     = Some True
   \<and> map_option
       (\<lambda>y. map_option
          (\<lambda>z. fst z = Some [''cog'', ''cot'', ''cat'']
             \<and> findPath (snd z) ''cat'' ''cog'' True = Some (Some [''cat'', ''cot'', ''cog''], snd z))
          (findPath (snd y) ''cog'' ''cat'' False))
       (findPath (initialize new_engine [''cat'', ''cot'', ''cog'']) ''cat'' ''cog'' True)
     = Some (Some True)
   \<and> map_option
       (\<lambda>y. fst y = None
          \<and> precomputedPaths (snd y)
              = precomputedPaths (initialize new_engine [''cat'', ''cot'', ''dog'']))
       (findPath (initialize new_engine [''cat'', ''cot'', ''dog'']) ''cat'' ''dog'' True)
     = Some True"
proof -
  let ?E = "initialize new_engine [''cat'', ''cot'', ''cog'']"
  let ?D = "initialize new_engine [''cat'', ''cot'', ''dog'']"
  obtain y where y: "findPath ?E ''cat'' ''cog'' True = Some y"
    "fst y = Some [''cat'', ''cot'', ''cog'']"
    by (simp add: findPath_cat_cog)
  have "\<exists>z. findPath (snd y) ''cog'' ''cat'' False = Some z
          \<and> fst z = Some [''cog'', ''cot'', ''cat'']"
    using y(1) unfolding findPath_cat_cog by (auto simp: findPath_cog_cat_later)
  then obtain z where z: "findPath (snd y) ''cog'' ''cat'' False = Some z"
    "fst z = Some [''cog'', ''cot'', ''cat'']"
    by blast
  obtain n where n: "findPath ?D ''cat'' ''dog'' True = Some n" "fst n = None"
    by (simp add: findPath_cat_dog)
  have ne: "''cat'' \<noteq> ''cog''" "''cat'' \<noteq> ''dog''" by simp_all
  note t = findPath_caching [OF y(1) ne(1), of False]
  from t y(2) have
    p: "precomputedPaths (snd y)
          = (precomputedPaths ?E)(cache_key ''cat'' ''cog'' \<mapsto> [''cat'', ''cot'', ''cog''])"
    and q: "findPath (snd y) ''cat'' ''cog'' False = Some (fst y, snd y)"
    by simp_all
  from findPath_caching [OF y(1) ne(1), of True] y(2) z(1)
  have r: "findPath (snd z) ''cat'' ''cog'' True = Some (Some [''cat'', ''cot'', ''cog''], snd z)"
    by blast
  from findPath_caching [OF n(1) ne(2)] n(2)
  have s: "precomputedPaths (snd n) = precomputedPaths ?D"
    by blast
  from p have p': "precomputedPaths (snd y) (cache_key ''cat'' ''cog'')
                     = Some [''cat'', ''cot'', ''cog'']"
    by simp
  show ?thesis
    unfolding y(1) n(1) option.map z(1) y(2)
    using p' q r s z(2) n(2) y(2) by simp
qed

text \<open>
  The claim as stated fails for the no-path outcome: between \<open>cat\<close> and \<open>dog\<close> in the
  dictionary \<open>cat\<close>, \<open>cot\<close>, \<open>dog\<close> there is no path, and after \<open>findPath\<close> has said so the
  cache holds nothing under the key of the pair, exactly as before the call.
\<close>

theorem no_path_not_cached_counterexample:
  "map_option fst
     (findPath (initialize new_engine [''cat'', ''cot'', ''dog'']) ''cat'' ''dog'' True)
   = Some None
   \<and> map_option (\<lambda>y. precomputedPaths (snd y) (cache_key ''cat'' ''dog''))
       (findPath (initialize new_engine [''cat'', ''cot'', ''dog'']) ''cat'' ''dog'' True)
     = Some None
   \<and> precomputedPaths (initialize new_engine [''cat'', ''cot'', ''dog'']) (cache_key ''cat'' ''dog'')
     = None"
  by (simp add: findPath_cat_dog new_engine_caches)

section \<open>The difficulty score\<close>

text \<open>
  C4 at \<open>cat\<close> and \<open>cog\<close> in the dictionary \<open>cat\<close>, \<open>cot\<close>, \<open>cog\<close>. The path that
  \<open>findPath\<close> returns has 3 words, the two words differ at 2 positions, and the words of
  the path have 1, 2 and 1 neighbours. The claimed score \<open>3 * 10 + 2 * 5 + (10 - 4 / 3)\<close>
  is the number 48.666666666666664; \<open>calculateDifficulty\<close> returns 49.666666666666664,
  which is larger by 1, because it multiplies by 5 not the number of differing positions
  but the composite estimate 2.1999999999999997 of \<open>heuristic\<close>.
\<close>

theorem calculateDifficulty_counterexample:
  "map_option fst (findPath (initialize new_engine [''cat'', ''cot'', ''cog'']) ''cat'' ''cog'' True)
   = Some (Some [''cat'', ''cot'', ''cog''])
   \<and> differing_positions ''cat'' ''cog'' = 2
   \<and> map (\<lambda>word. length (getNeighbors (initialize new_engine [''cat'', ''cot'', ''cog'']) word))
        [''cat'', ''cot'', ''cog''] = [1, 2, 1]
   \<and> fl (fl (3 * 10 + fl (2 * 5)) + fl (10 - fl ((1 + 2 + 1) / 3)))
      = 6849224433292629 / 140737488355328
   \<and> map_option fst
        (calculateDifficulty (initialize new_engine [''cat'', ''cot'', ''cog'']) ''cat'' ''cog'')
      = Some (Score (6849224433292629 / 140737488355328 + 1))
   \<and> fst (heuristic (initialize new_engine [''cat'', ''cot'', ''cog'']) ''cat'' ''cog'')
      = 4953959590107545 / 2251799813685248"
proof -
  have "map_option fst (findPath (initialize new_engine [''cat'', ''cot'', ''cog'']) ''cat'' ''cog'' True)
   = Some (Some [''cat'', ''cot'', ''cog''])"
    by (simp add: findPath_cat_cog)
  moreover have "differing_positions ''cat'' ''cog'' = 2"
    by (simp add: differing_positions_def)
  moreover have "map (\<lambda>word. length (getNeighbors (initialize new_engine [''cat'', ''cot'', ''cog'']) word))
        [''cat'', ''cot'', ''cog''] = [1, 2, 1]"
    by (simp add: getNeighbors_def neighbors_def graph_cat_cot_cog)
  moreover have "fl (fl (3 * 10 + fl (2 * 5)) + fl (10 - fl ((1 + 2 + 1) / 3)))
      = 6849224433292629 / 140737488355328"
    by (simp add: roundings)
  moreover have "map_option fst
        (calculateDifficulty (initialize new_engine [''cat'', ''cot'', ''cog'']) ''cat'' ''cog'')
      = Some (Score (6849224433292629 / 140737488355328 + 1))"
    by (simp add: calculateDifficulty_cat_cog)
  moreover have "fst (heuristic (initialize new_engine [''cat'', ''cot'', ''cog'']) ''cat'' ''cog'')
      = 4953959590107545 / 2251799813685248"
    by (simp add: heuristic_def new_engine_caches heuristicValue_cat_cog)
  ultimately show ?thesis by (intro conjI)
qed

end
